theory Spec2Isabelle
  imports Main
begin

section \<open>The launcher \<^verbatim>\<open>Run_GamingNetworkOptimization_Admin.py\<close>\<close>

text \<open>
  The script has three functions: \<^verbatim>\<open>get_network_adapters_from_powershell\<close> (runs a
  PowerShell query and parses its JSON output), \<^verbatim>\<open>select_guids_for_tweaks\<close> (the
  interactive selection loop) and \<^verbatim>\<open>run_script\<close> (the glue, ending in the
  \<^verbatim>\<open>ShellExecuteW\<close> call). Each is embedded below under its own name.

  Effects are explicit. What the script reads from the world (whether the companion script
  exists, what the PowerShell query gave, the lines typed on standard input, what
  \<^verbatim>\<open>ShellExecuteW\<close> returned) is an argument; what it does to the world (console
  output, dialogs, prompts, the elevation call) is a list of events, in program order.

  Scope of the data model. Strings are ASCII (\<^typ>\<open>string\<close> is a list of 8-bit
  characters). A JSON document is \<^verbatim>\<open>null\<close>, one object, or an array of objects, and the
  fields of an object are strings: this is the shape of the query
  \<^verbatim>\<open>Select-Object Name, InterfaceDescription, InterfaceGuid | ConvertTo-Json\<close>.
  Standard input is a finite list of lines; \<^verbatim>\<open>input()\<close> on exhausted input raises
  \<^verbatim>\<open>EOFError\<close>, as Python does.
\<close>

subsection \<open>Python strings\<close>

text \<open>\<^verbatim>\<open>str.isspace\<close> on the ASCII range: tab to carriage return, the four separators
  \<^verbatim>\<open>0x1c..0x1f\<close>, and the space.\<close>

definition is_space :: "char \<Rightarrow> bool" where
  "is_space c = (let n = (of_char c :: nat) in (9 \<le> n \<and> n \<le> 13) \<or> (28 \<le> n \<and> n \<le> 32))"

text \<open>\<^verbatim>\<open>s.strip()\<close>\<close>

definition strip :: "string \<Rightarrow> string" where
  "strip s = rev (dropWhile is_space (rev (dropWhile is_space s)))"

text \<open>\<^verbatim>\<open>s.lower()\<close>\<close>

definition lower_char :: "char \<Rightarrow> char" where
  "lower_char c = (let n = (of_char c :: nat) in if 65 \<le> n \<and> n \<le> 90 then char_of (n + 32) else c)"

definition lower :: "string \<Rightarrow> string" where
  "lower s = map lower_char s"

text \<open>\<^verbatim>\<open>sep.join(xs)\<close>\<close>

fun join :: "string \<Rightarrow> string list \<Rightarrow> string" where
  "join sep [] = []"
| "join sep [x] = x"
| "join sep (x # y # ys) = x @ sep @ join sep (y # ys)"

text \<open>
  \<^verbatim>\<open>int(s)\<close> for a string, base ten: surrounding whitespace is dropped, one sign is
  allowed, then a digit followed by digits, each optionally preceded by one underscore.
  \<open>None\<close> stands for \<^verbatim>\<open>ValueError\<close>. (The interpreter's limit on the number of digits,
  4300 by default in recent versions, is not modelled.)
\<close>

definition is_digit :: "char \<Rightarrow> bool" where
  "is_digit c = (let n = (of_char c :: nat) in 48 \<le> n \<and> n \<le> 57)"

definition digit_value :: "char \<Rightarrow> int" where
  "digit_value c = int (of_char c) - 48"

fun digits_value :: "int \<Rightarrow> string \<Rightarrow> int option" where
  "digits_value acc [] = Some acc"
| "digits_value acc [c] = (if is_digit c then Some (10 * acc + digit_value c) else None)"
| "digits_value acc (c # d # ds) =
     (if is_digit c then digits_value (10 * acc + digit_value c) (d # ds)
      else if c = CHR ''_'' \<and> is_digit d then digits_value (10 * acc + digit_value d) ds
      else None)"

definition unsigned_value :: "string \<Rightarrow> int option" where
  "unsigned_value s =
     (case s of
        [] \<Rightarrow> None
      | c # cs \<Rightarrow> if is_digit c then digits_value (digit_value c) cs else None)"

definition py_int :: "string \<Rightarrow> int option" where
  "py_int s =
     (case strip s of
        [] \<Rightarrow> None
      | c # cs \<Rightarrow>
          if c = CHR ''-'' then map_option uminus (unsigned_value cs)
          else if c = CHR ''+'' then unsigned_value cs
          else unsigned_value (c # cs))"

subsection \<open>Data\<close>

text \<open>An adapter is the \<^verbatim>\<open>dict\<close> that \<^verbatim>\<open>json.loads\<close> builds from one JSON object.\<close>

type_synonym adapter = "string \<rightharpoonup> string"

text \<open>What \<^verbatim>\<open>json.loads\<close> returns: \<^verbatim>\<open>None\<close> for \<^verbatim>\<open>null\<close>, a \<^verbatim>\<open>dict\<close>, or a \<^verbatim>\<open>list\<close>.\<close>

datatype json = JNull | JObject adapter | JArray "adapter list"

text \<open>
  The outcome of lines 20 to 26: \<^verbatim>\<open>subprocess.run(..., check=True)\<close> followed by
  \<^verbatim>\<open>json.loads(process.stdout)\<close>. Each exception carries its text.
\<close>

datatype query_outcome =
    CalledProcessError string
  | JSONDecodeError string
  | OtherException string
  | Loaded json

text \<open>The exceptions that leave \<^verbatim>\<open>select_guids_for_tweaks\<close>: only \<^verbatim>\<open>ValueError\<close> is caught there.\<close>

datatype py_error = KeyError string | EOFError

text \<open>What \<^verbatim>\<open>ctypes.windll.shell32.ShellExecuteW\<close> did: it returned a number, or raised.\<close>

datatype shell_outcome = Returned int | Raised string

text \<open>The detail appended to the launch error message, lines 161 to 166.\<close>

datatype launch_detail =
    OutOfResources
  | FileNotFound
  | PathNotFound
  | AccessDenied
  | CanceledByUser
  | ReferToDocumentation

text \<open>
  Every text the script prints, shows in a dialog or uses as a prompt, one constructor per
  string in the source, with the values the f-string interpolates.
\<close>

datatype message =
    FetchingAdapters
  | EnumerationCalledProcessError string
  | EnumerationJSONDecodeError string
  | EnumerationUnexpectedError string
  | NoAdaptersFound
  | AvailableAdapters
  | AdapterLine nat string string string
  | AdapterSelection
  | GuidanceCanApply
  | GuidanceRecommended
  | GuidanceNotRecommended
  | PromptFirst
  | PromptAnother string
  | PromptAddAnother
  | NoSpecificSelected
  | SkippingAll
  | Added string string
  | AlreadySelected string
  | AllSelected
  | InvalidSelection nat
  | InvalidInput
  | ScriptNotFound string string
  | CouldNotRetrieve
  | AttemptingToRun string
  | TweaksAttemptedFor string
  | NoGuidsSelected
  | LaunchFailed int launch_detail
  | LaunchRequested
  | LaunchException string

text \<open>
  \<open>MessageBoxW text title flags\<close> is \<^verbatim>\<open>ctypes.windll.user32.MessageBoxW(None, text, title, flags)\<close>;
  \<open>ShellExecuteW verb file parameters show\<close> is
  \<^verbatim>\<open>ctypes.windll.shell32.ShellExecuteW(None, verb, file, parameters, None, show)\<close>.
\<close>

datatype event =
    Print message
  | Input message
  | MessageBoxW message string nat
  | RunPowerShell
  | ShellExecuteW string string string nat

subsection \<open>\<^verbatim>\<open>get_network_adapters_from_powershell\<close>\<close>

definition enumeration_error :: "message \<Rightarrow> event list" where
  "enumeration_error error_msg =
     [Print error_msg, MessageBoxW error_msg ''Adapter Enumeration Error'' 16]"

text \<open>The Python \<^verbatim>\<open>None\<close> is \<open>None\<close>; a list is \<open>Some\<close> of it.\<close>

fun get_network_adapters_from_powershell :: "query_outcome \<Rightarrow> event list \<times> adapter list option" where
  "get_network_adapters_from_powershell (Loaded (JObject adapters_data)) =
     ([Print FetchingAdapters, RunPowerShell], Some [adapters_data])"
| "get_network_adapters_from_powershell (Loaded (JArray adapters_data)) =
     ([Print FetchingAdapters, RunPowerShell], Some adapters_data)"
| "get_network_adapters_from_powershell (Loaded JNull) =
     ([Print FetchingAdapters, RunPowerShell], None)"
| "get_network_adapters_from_powershell (CalledProcessError e) =
     ([Print FetchingAdapters, RunPowerShell] @ enumeration_error (EnumerationCalledProcessError e), None)"
| "get_network_adapters_from_powershell (JSONDecodeError e) =
     ([Print FetchingAdapters, RunPowerShell] @ enumeration_error (EnumerationJSONDecodeError e), None)"
| "get_network_adapters_from_powershell (OtherException e) =
     ([Print FetchingAdapters, RunPowerShell] @ enumeration_error (EnumerationUnexpectedError e), None)"

subsection \<open>\<^verbatim>\<open>select_guids_for_tweaks\<close>\<close>

text \<open>\<^verbatim>\<open>d.get(k, default)\<close> and \<^verbatim>\<open>d[k]\<close>.\<close>

definition dict_get :: "adapter \<Rightarrow> string \<Rightarrow> string \<Rightarrow> string" where
  "dict_get d k dflt = (case d k of None \<Rightarrow> dflt | Some v \<Rightarrow> v)"

definition dict_item :: "adapter \<Rightarrow> string \<Rightarrow> py_error + string" where
  "dict_item d k = (case d k of None \<Rightarrow> Inl (KeyError k) | Some v \<Rightarrow> Inr v)"

text \<open>Lines 57 to 61: one line per adapter, numbered from one.\<close>

definition adapter_line :: "nat \<times> adapter \<Rightarrow> event" where
  "adapter_line p =
     (case p of (i, adapter) \<Rightarrow>
        Print (AdapterLine (i + 1)
          (dict_get adapter ''Name'' ''N/A'')
          (dict_get adapter ''InterfaceDescription'' ''N/A'')
          (dict_get adapter ''InterfaceGuid'' ''N/A'')))"

definition listing :: "adapter list \<Rightarrow> event list" where
  "listing adapters = map adapter_line (enumerate 0 adapters)"

text \<open>Lines 63 to 66.\<close>

definition guidance :: "event list" where
  "guidance =
     [Print AdapterSelection, Print GuidanceCanApply, Print GuidanceRecommended,
      Print GuidanceNotRecommended]"

text \<open>Lines 71 to 74.\<close>

definition prompt_message :: "string list \<Rightarrow> message" where
  "prompt_message selected_guids =
     (if selected_guids = [] then PromptFirst else PromptAnother (join '', '' selected_guids))"

text \<open>
  How one pass through the body of \<^verbatim>\<open>while True\<close> ends: the loop goes round again,
  \<^verbatim>\<open>break\<close> (the function then returns \<^verbatim>\<open>selected_guids\<close>, line 111),
  \<^verbatim>\<open>return\<close>, or an exception that is not caught.
\<close>

datatype flow =
    Continue "string list"
  | Break "string list"
  | Return "string list"
  | Raise py_error

text \<open>A step gives the events, how it ended, and the lines of standard input not yet read.\<close>

type_synonym step = "event list \<times> flow \<times> string list"

definition prepend :: "event list \<Rightarrow> event list \<times> 'a \<times> string list \<Rightarrow> event list \<times> 'a \<times> string list" where
  "prepend out r = (case r of (out', v, rest) \<Rightarrow> (out @ out', v, rest))"

text \<open>Lines 103 to 105, the body of \<^verbatim>\<open>if not selected_guids\<close>.\<close>

definition ask_add_more :: "string list \<Rightarrow> string list \<Rightarrow> step" where
  "ask_add_more selected_guids stdin =
     (case stdin of
        [] \<Rightarrow> ([Input PromptAddAnother], Raise EOFError, [])
      | l # rest \<Rightarrow>
          (let add_more_choice = lower (strip l) in
           if add_more_choice \<notin> set [''yes'', ''y'']
           then ([Input PromptAddAnother], Break selected_guids, rest)
           else ([Input PromptAddAnother], Continue selected_guids, rest)))"

text \<open>Lines 98 to 105, after the selection was made or found to be a repeat.\<close>

definition after_selection :: "adapter list \<Rightarrow> string list \<Rightarrow> string list \<Rightarrow> step" where
  "after_selection adapters selected_guids stdin =
     (if length selected_guids = length adapters
      then ([Print AllSelected], Break selected_guids, stdin)
      else if selected_guids = [] then ask_add_more selected_guids stdin
      else ([], Continue selected_guids, stdin))"

text \<open>
  Lines 89 to 107. The index \<open>choice_num - 1\<close> is within the list under the guard. The
  subscript \<^verbatim>\<open>chosen_adapter['Name']\<close> is evaluated inside the \<^verbatim>\<open>print\<close> of either
  branch, after the list was extended; the exception discards the list.
\<close>

definition handle_number :: "adapter list \<Rightarrow> string list \<Rightarrow> int \<Rightarrow> string list \<Rightarrow> step" where
  "handle_number adapters selected_guids choice_num stdin =
     (if 1 \<le> choice_num \<and> choice_num \<le> int (length adapters) then
        (let chosen_adapter = adapters ! nat (choice_num - 1) in
         case dict_item chosen_adapter ''InterfaceGuid'' of
           Inl e \<Rightarrow> ([], Raise e, stdin)
         | Inr chosen_guid \<Rightarrow>
             if chosen_guid \<notin> set selected_guids then
               (case dict_item chosen_adapter ''Name'' of
                  Inl e \<Rightarrow> ([], Raise e, stdin)
                | Inr name \<Rightarrow>
                    prepend [Print (Added name chosen_guid)]
                      (after_selection adapters (selected_guids @ [chosen_guid]) stdin))
             else
               (case dict_item chosen_adapter ''Name'' of
                  Inl e \<Rightarrow> ([], Raise e, stdin)
                | Inr name \<Rightarrow>
                    prepend [Print (AlreadySelected name)]
                      (after_selection adapters selected_guids stdin)))
      else ([Print (InvalidSelection (length adapters))], Continue selected_guids, stdin))"

text \<open>
  Lines 70 to 109, one pass. \<^verbatim>\<open>int\<close> is the only call that raises \<^verbatim>\<open>ValueError\<close>; the
  handler prints and the loop goes round.
\<close>

definition loop_body :: "adapter list \<Rightarrow> string list \<Rightarrow> string list \<Rightarrow> step" where
  "loop_body adapters selected_guids stdin =
     (case stdin of
        [] \<Rightarrow> ([Input (prompt_message selected_guids)], Raise EOFError, [])
      | l # rest \<Rightarrow>
          prepend [Input (prompt_message selected_guids)]
            (let choice_str = lower (strip l) in
             if choice_str = ''done'' then
               (if selected_guids \<noteq> [] then ([], Break selected_guids, rest)
                else ([Print NoSpecificSelected], Return [], rest))
             else if choice_str = ''skip'' then ([Print SkippingAll], Return [], rest)
             else
               (case py_int choice_str of
                  None \<Rightarrow> ([Print InvalidInput], Continue selected_guids, rest)
                | Some choice_num \<Rightarrow> handle_number adapters selected_guids choice_num rest)))"

text \<open>Every pass that goes round again has read at least one line.\<close>

lemma ask_add_more_reads:
  "ask_add_more sel stdin = (out, Continue sel', rest) \<Longrightarrow> length rest < length stdin"
  by (auto simp: ask_add_more_def Let_def split: list.splits if_splits)

lemma after_selection_reads:
  "after_selection adapters sel stdin = (out, fl, rest) \<Longrightarrow> length rest \<le> length stdin"
  by (auto simp: after_selection_def ask_add_more_def Let_def split: list.splits if_splits)

lemma handle_number_reads:
  "handle_number adapters sel n stdin = (out, fl, rest) \<Longrightarrow> length rest \<le> length stdin"
  by (auto simp: handle_number_def prepend_def Let_def
      split: sum.splits if_splits prod.splits dest: after_selection_reads)

lemma loop_body_reads:
  "loop_body adapters sel stdin = (out, Continue sel', rest) \<Longrightarrow> length rest < length stdin"
  by (auto simp: loop_body_def prepend_def Let_def less_Suc_eq_le
      split: list.splits option.splits if_splits prod.splits dest: handle_number_reads)

text \<open>Lines 68 to 111: the loop, from the list built so far.\<close>

function select_loop ::
  "adapter list \<Rightarrow> string list \<Rightarrow> string list \<Rightarrow> event list \<times> (py_error + string list) \<times> string list" where
  "select_loop adapters selected_guids stdin =
     (case loop_body adapters selected_guids stdin of
        (out, Continue sel, rest) \<Rightarrow> prepend out (select_loop adapters sel rest)
      | (out, Break sel, rest) \<Rightarrow> (out, Inr sel, rest)
      | (out, Return v, rest) \<Rightarrow> (out, Inr v, rest)
      | (out, Raise e, rest) \<Rightarrow> (out, Inl e, rest))"
  by pat_completeness auto
termination
  by (relation "measure (\<lambda>(adapters, selected_guids, stdin). length stdin)")
    (auto dest: loop_body_reads [OF sym])

declare select_loop.simps [simp del]

text \<open>Lines 47 to 111. \<^verbatim>\<open>not adapters\<close> holds of \<^verbatim>\<open>None\<close> and of the empty list.\<close>

definition select_guids_for_tweaks ::
  "adapter list option \<Rightarrow> string list \<Rightarrow> event list \<times> (py_error + string list) \<times> string list" where
  "select_guids_for_tweaks adapters stdin =
     (case adapters of
        None \<Rightarrow> ([Print NoAdaptersFound], Inr [], stdin)
      | Some [] \<Rightarrow> ([Print NoAdaptersFound], Inr [], stdin)
      | Some (a # more) \<Rightarrow>
          prepend (Print AvailableAdapters # listing (a # more) @ guidance)
            (select_loop (a # more) [] stdin))"

subsection \<open>\<^verbatim>\<open>run_script\<close>\<close>

definition TARGET_PS_SCRIPT_NAME :: string where
  "TARGET_PS_SCRIPT_NAME = ''GamingNetworkOptimization.ps1''"

text \<open>
  What \<^verbatim>\<open>run_script\<close> reads from the world. \<open>current_script_dir\<close> is the value of the
  variable of that name after lines 115 to 120, \<open>target_ps_script_path\<close> is
  \<^verbatim>\<open>os.path.join(current_script_dir, TARGET_PS_SCRIPT_NAME)\<close>, \<open>script_exists\<close> is
  \<^verbatim>\<open>os.path.exists(target_ps_script_path)\<close>.
\<close>

record environment =
  current_script_dir :: string
  target_ps_script_path :: string
  script_exists :: bool
  query :: query_outcome
  typed_lines :: "string list"
  elevation :: shell_outcome

text \<open>Line 151.\<close>

definition script_parameters :: "string \<Rightarrow> string \<Rightarrow> string" where
  \<open>script_parameters path guids_csv_for_ps =
     ''-NoProfile -ExecutionPolicy Bypass -File "'' @ path @ ''" -TargetGuidsCsv "'' @
     guids_csv_for_ps @ ''"''\<close>

text \<open>Lines 161 to 166, the chain of \<^verbatim>\<open>if\<close> and \<^verbatim>\<open>elif\<close> in its order.\<close>

definition error_detail :: "int \<Rightarrow> launch_detail" where
  "error_detail ret =
     (if ret = 0 then OutOfResources
      else if ret = 2 then FileNotFound
      else if ret = 3 then PathNotFound
      else if ret = 5 then AccessDenied
      else if ret = 1223 then CanceledByUser
      else ReferToDocumentation)"

text \<open>Lines 158 to 181: what follows the call, by its outcome.\<close>

definition report_launch :: "shell_outcome \<Rightarrow> event list" where
  "report_launch outcome =
     (case outcome of
        Returned ret \<Rightarrow>
          if ret \<le> 32
          then [MessageBoxW (LaunchFailed ret (error_detail ret)) ''Launch Error'' 16,
                Print (LaunchFailed ret (error_detail ret))]
          else [Print LaunchRequested]
      | Raised e \<Rightarrow>
          [MessageBoxW (LaunchException e) ''Python Script Exception'' 16,
           Print (LaunchException e)])"

text \<open>Lines 141 to 181: from the selection to the end of \<^verbatim>\<open>run_script\<close>.\<close>

definition launch :: "string \<Rightarrow> string list \<Rightarrow> shell_outcome \<Rightarrow> event list" where
  "launch path selected_guids outcome =
     (let guids_csv_for_ps = join '','' selected_guids in
      [Print (AttemptingToRun path),
       Print (if selected_guids \<noteq> [] then TweaksAttemptedFor guids_csv_for_ps else NoGuidsSelected),
       ShellExecuteW ''runas'' ''powershell.exe'' (script_parameters path guids_csv_for_ps) 1]
      @ report_launch outcome)"

text \<open>
  Lines 113 to 181. The result is the events and how the function ended: \<open>None\<close> when it
  returned, \<open>Some e\<close> when the exception \<open>e\<close> of the selector left it uncaught.
\<close>

definition run_script :: "environment \<Rightarrow> event list \<times> py_error option" where
  "run_script env =
     (if \<not> script_exists env then
        ([MessageBoxW (ScriptNotFound TARGET_PS_SCRIPT_NAME (current_script_dir env)) ''Script Not Found'' 16,
          Print (ScriptNotFound TARGET_PS_SCRIPT_NAME (current_script_dir env))], None)
      else
        (case get_network_adapters_from_powershell (query env) of
           (out1, None) \<Rightarrow> (out1 @ [Print CouldNotRetrieve], None)
         | (out1, Some adapters) \<Rightarrow>
             (case select_guids_for_tweaks (Some adapters) (typed_lines env) of
                (out2, Inl e, rest) \<Rightarrow> (out1 @ out2, Some e)
              | (out2, Inr selected_guids, rest) \<Rightarrow>
                  (out1 @ out2 @ launch (target_ps_script_path env) selected_guids (elevation env),
                   None))))"

section \<open>Notions used to state the properties\<close>

text \<open>A record as the query produces it, with its three fields.\<close>

definition adapter_of :: "string \<Rightarrow> string \<Rightarrow> string \<Rightarrow> adapter" where
  "adapter_of name description guid =
     [''Name'' \<mapsto> name, ''InterfaceDescription'' \<mapsto> description, ''InterfaceGuid'' \<mapsto> guid]"

text \<open>
  The states in which the loop stands at its head, line 69, each with the events of the
  passes made so far. The selector enters the loop only with a list that is not empty.
\<close>

inductive at_loop_head :: "adapter list \<Rightarrow> event list \<Rightarrow> string list \<Rightarrow> bool"
  for adapters :: "adapter list" where
  entered: "adapters \<noteq> [] \<Longrightarrow> at_loop_head adapters [] []"
| round: "at_loop_head adapters out selected_guids \<Longrightarrow>
          loop_body adapters selected_guids stdin = (out', Continue selected_guids', rest) \<Longrightarrow>
          at_loop_head adapters (out @ out') selected_guids'"

text \<open>The identifiers of the \<open>Added\<close> notices among some events, in the order printed.\<close>

fun added_guids :: "event list \<Rightarrow> string list" where
  "added_guids [] = []"
| "added_guids (Print (Added name guid) # out) = guid # added_guids out"
| "added_guids (e # out) = added_guids out"

text \<open>The calls of \<^verbatim>\<open>input\<close> and of \<^verbatim>\<open>ShellExecuteW\<close> among the events.\<close>

fun is_prompt :: "event \<Rightarrow> bool" where
  "is_prompt (Input m) = True"
| "is_prompt e = False"

fun is_elevation :: "event \<Rightarrow> bool" where
  "is_elevation (ShellExecuteW verb file parameters show_cmd) = True"
| "is_elevation e = False"

text \<open>
  What a pass that goes round again or breaks does to the list, next to the events \<open>out\<close> of
  the pass: nothing, or one identifier appended that was not in it, is the
  \<^verbatim>\<open>InterfaceGuid\<close> of an adapter, and is announced by the one \<open>Added\<close> notice.
\<close>

definition grows :: "adapter list \<Rightarrow> string list \<Rightarrow> event list \<Rightarrow> string list \<Rightarrow> bool" where
  "grows adapters sel out sel' =
     ((sel' = sel \<and> added_guids out = [])
      \<or> (\<exists>g. sel' = sel @ [g] \<and> g \<notin> set sel \<and> added_guids out = [g]
            \<and> (\<exists>a\<in>set adapters. a ''InterfaceGuid'' = Some g)))"

text \<open>
  The invariant of the loop: no identifier twice, each the \<^verbatim>\<open>InterfaceGuid\<close> of an adapter
  of the list, and the list is the identifiers of the \<open>Added\<close> notices so far, in their order.
\<close>

definition selection_ok :: "adapter list \<Rightarrow> event list \<Rightarrow> string list \<Rightarrow> bool" where
  "selection_ok adapters out sel =
     (distinct sel
      \<and> (\<forall>g\<in>set sel. \<exists>a\<in>set adapters. a ''InterfaceGuid'' = Some g)
      \<and> sel = added_guids out)"

text \<open>
  A number as it is typed, in decimal digits. It is not part of the script; it gives, for
  every adapter, a line that selects it.
\<close>

definition digit_char :: "nat \<Rightarrow> char" where
  "digit_char d = char_of (48 + d)"

fun decimal :: "nat \<Rightarrow> string" where
  "decimal n = (if n < 10 then [digit_char n] else decimal (n div 10) @ [digit_char (n mod 10)])"

declare decimal.simps [simp del]

text \<open>
  An environment in which the companion script is present, for the examples: the query's
  outcome, the lines typed and the outcome of the elevation call are given.
\<close>

definition installed :: "query_outcome \<Rightarrow> string list \<Rightarrow> shell_outcome \<Rightarrow> environment" where
  "installed q lines outcome =
     \<lparr>current_script_dir = ''C:/Tools'',
      target_ps_script_path = ''C:/Tools/GamingNetworkOptimization.ps1'',
      script_exists = True, query = q, typed_lines = lines, elevation = outcome\<rparr>"

text \<open>
  Reading a comma-separated value back: the pieces between the commas, as \<^verbatim>\<open>s.split(',')\<close>
  gives them. It is not part of the script; it states what "joined by single commas, no
  trailing comma" means.
\<close>

fun split_commas :: "string \<Rightarrow> string list" where
  "split_commas [] = [[]]"
| "split_commas (c # cs) =
     (if c = CHR '','' then [] # split_commas cs
      else (case split_commas cs of [] \<Rightarrow> [[c]] | x # xs \<Rightarrow> (c # x) # xs))"

section \<open>Facts about the loop\<close>

text \<open>The equations that evaluate the selector on given adapters and lines.\<close>

lemmas sel_eval =
  select_guids_for_tweaks_def select_loop.simps loop_body_def prepend_def lower_def
  lower_char_def strip_def is_space_def py_int_def unsigned_value_def is_digit_def
  digit_value_def handle_number_def dict_item_def dict_get_def adapter_of_def
  after_selection_def ask_add_more_def prompt_message_def listing_def adapter_line_def
  guidance_def Let_def eval_nat_numeral

text \<open>
  At line 102 the list is never empty: the chosen identifier was appended to it, or was
  found in it. So the test \<^verbatim>\<open>not selected_guids\<close> fails and lines 103 to 105 do not run.
\<close>

lemma after_selection_no_question:
  "sel \<noteq> [] \<Longrightarrow>
   after_selection adapters sel stdin =
     (if length sel = length adapters then ([Print AllSelected], Break sel, stdin)
      else ([], Continue sel, stdin))"
  by (simp add: after_selection_def)

lemma handle_number_no_question:
  "handle_number adapters sel n stdin = (out, fl, rest) \<Longrightarrow> Input PromptAddAnother \<notin> set out"
proof -
  have a: "sel @ [g] \<noteq> []" for g by simp
  have b: "g \<in> set sel \<Longrightarrow> sel \<noteq> []" for g by auto
  show "handle_number adapters sel n stdin = (out, fl, rest) \<Longrightarrow> ?thesis"
    by (auto simp: handle_number_def prepend_def after_selection_no_question [OF a]
        after_selection_no_question [OF b] Let_def split: sum.splits if_splits)
qed

lemma prompt_message_not_question:
  "prompt_message sel \<noteq> PromptAddAnother" "PromptAddAnother \<noteq> prompt_message sel"
  by (simp_all add: prompt_message_def)

lemma loop_body_no_question:
  "loop_body adapters sel stdin = (out, fl, rest) \<Longrightarrow> Input PromptAddAnother \<notin> set out"
  by (auto simp: loop_body_def prepend_def Let_def prompt_message_not_question
      split: list.splits option.splits prod.splits if_splits dest: handle_number_no_question)

lemma select_loop_no_question:
  "Input PromptAddAnother \<notin> set (fst (select_loop adapters sel stdin))"
proof (induction adapters sel stdin rule: select_loop.induct)
  case (1 adapters sel stdin)
  obtain out fl rest where b: "loop_body adapters sel stdin = (out, fl, rest)"
    by (cases "loop_body adapters sel stdin") auto
  have o: "Input PromptAddAnother \<notin> set out"
    using loop_body_no_question [OF b] .
  show ?case
  proof (cases fl)
    case (Continue sel')
    with 1 [OF b [symmetric]] b o show ?thesis
      by (subst select_loop.simps) (auto simp: prepend_def split: prod.splits)
  qed (use b o in \<open>subst select_loop.simps, simp\<close>)+
qed

text \<open>One pass reads one line, and what it does depends on that line only.\<close>

lemma handle_number_frame:
  "handle_number adapters sel n stdin =
     (fst (handle_number adapters sel n []), fst (snd (handle_number adapters sel n [])), stdin)"
proof -
  have a: "sel @ [g] \<noteq> []" for g by simp
  have b: "g \<in> set sel \<Longrightarrow> sel \<noteq> []" for g by auto
  show ?thesis
    by (auto simp: handle_number_def prepend_def after_selection_no_question [OF a]
        after_selection_no_question [OF b] Let_def split: sum.splits if_splits)
qed

lemma handle_number_no_eof:
  "handle_number adapters sel n stdin = (out, Raise e, rest) \<Longrightarrow> e \<noteq> EOFError"
proof -
  have a: "sel @ [g] \<noteq> []" for g by simp
  have b: "g \<in> set sel \<Longrightarrow> sel \<noteq> []" for g by auto
  show "handle_number adapters sel n stdin = (out, Raise e, rest) \<Longrightarrow> ?thesis"
    by (auto simp: handle_number_def prepend_def after_selection_no_question [OF a]
        after_selection_no_question [OF b] Let_def dict_item_def
        split: sum.splits if_splits option.splits)
qed

lemma loop_body_frame:
  "loop_body adapters sel (l # stdin) =
     (fst (loop_body adapters sel [l]), fst (snd (loop_body adapters sel [l])), stdin)"
  using handle_number_frame [of adapters sel _ stdin]
  by (auto simp: loop_body_def prepend_def Let_def split: option.splits prod.splits)

lemma loop_body_no_eof:
  "loop_body adapters sel (l # stdin) = (out, Raise e, rest) \<Longrightarrow> e \<noteq> EOFError"
  by (auto simp: loop_body_def prepend_def Let_def
      split: option.splits prod.splits if_splits dest: handle_number_no_eof)

lemma loop_body_more:
  assumes "loop_body adapters sel (l # stdin) = (out, fl, rest)"
  shows "rest = stdin" and "loop_body adapters sel (l # stdin') = (out, fl, stdin')"
proof -
  from assms loop_body_frame [of adapters sel l stdin]
  have h: "out = fst (loop_body adapters sel [l])"
    "fl = fst (snd (loop_body adapters sel [l]))" "rest = stdin"
    by simp_all
  show "rest = stdin" by fact
  show "loop_body adapters sel (l # stdin') = (out, fl, stdin')"
    using loop_body_frame [of adapters sel l stdin'] h by simp
qed

lemma select_loop_empty:
  "select_loop adapters sel [] = ([Input (prompt_message sel)], Inl EOFError, [])"
  by (subst select_loop.simps) (simp add: loop_body_def)

text \<open>The line \<^verbatim>\<open>skip\<close>, in one pass and in the loop.\<close>

lemma skip_step:
  "lower (strip l) = ''skip'' \<Longrightarrow>
   loop_body adapters sel (l # rest) =
     ([Input (prompt_message sel), Print SkippingAll], Return [], rest)"
  by (simp add: loop_body_def prepend_def)

lemma skip_loop:
  "lower (strip l) = ''skip'' \<Longrightarrow>
   select_loop adapters sel (l # rest) =
     ([Input (prompt_message sel), Print SkippingAll], Inr [], rest)"
  by (subst select_loop.simps) (simp add: skip_step)

text \<open>
  A run that has read all of \<open>pre\<close> and stands at the prompt (it ends in \<^verbatim>\<open>EOFError\<close> when
  no line follows) returns the empty list when the next line is \<^verbatim>\<open>skip\<close>.
\<close>

lemma skip_after_prefix:
  "select_loop adapters sel pre = (out, Inl EOFError, []) \<Longrightarrow>
   lower (strip l) = ''skip'' \<Longrightarrow>
   select_loop adapters sel (pre @ l # rest) = (out @ [Print SkippingAll], Inr [], rest)"
proof (induction adapters sel pre arbitrary: out rule: select_loop.induct)
  case (1 adapters sel pre)
  show ?case
  proof (cases pre)
    case Nil
    with "1.prems" show ?thesis
      by (simp add: select_loop_empty skip_loop)
  next
    case (Cons p ps)
    obtain o1 fl r where b: "loop_body adapters sel (p # ps) = (o1, fl, r)"
      by (cases "loop_body adapters sel (p # ps)") auto
    note m = loop_body_more [OF b]
    have b': "loop_body adapters sel (p # ps @ l # rest) = (o1, fl, ps @ l # rest)"
      by (rule m(2))
    show ?thesis
    proof (cases fl)
      case (Continue sel')
      from "1.prems"(1) b Cons Continue m(1)
      obtain out' where o: "select_loop adapters sel' ps = (out', Inl EOFError, [])" "out = o1 @ out'"
        by (subst (asm) select_loop.simps) (auto simp: prepend_def split: prod.splits)
      have "select_loop adapters sel' (ps @ l # rest) = (out' @ [Print SkippingAll], Inr [], rest)"
        using "1.IH" [of o1 "(Continue sel', r)" "Continue sel'" r sel' out']
          b Cons Continue m(1) o(1) "1.prems"(2)
        by simp
      then show ?thesis
        using b' Cons Continue o(2)
        by (subst select_loop.simps) (simp add: prepend_def)
    next
      case (Break x)
      with "1.prems"(1) b Cons show ?thesis
        by (subst (asm) select_loop.simps) simp
    next
      case (Return x)
      with "1.prems"(1) b Cons show ?thesis
        by (subst (asm) select_loop.simps) simp
    next
      case (Raise e)
      with "1.prems"(1) b Cons loop_body_no_eof [of adapters sel p ps o1 e r] show ?thesis
        by (subst (asm) select_loop.simps) simp
    qed
  qed
qed

text \<open>A line that \<^verbatim>\<open>int\<close> accepts is neither \<^verbatim>\<open>done\<close> nor \<^verbatim>\<open>skip\<close>.\<close>

lemma py_int_control: "py_int ''done'' = None" "py_int ''skip'' = None"
  by (simp_all add: py_int_def strip_def is_space_def unsigned_value_def is_digit_def)

lemma number_step:
  "py_int (lower (strip l)) = Some n \<Longrightarrow>
   loop_body adapters sel (l # rest) =
     prepend [Input (prompt_message sel)] (handle_number adapters sel n rest)"
  using py_int_control by (auto simp: loop_body_def Let_def)

lemma added_guids_append: "added_guids (xs @ ys) = added_guids xs @ added_guids ys"
  by (induction xs rule: added_guids.induct) auto

lemma added_guids_listing: "added_guids (listing xs) = []"
proof -
  have "added_guids (map adapter_line ps) = []" for ps
    by (induction ps) (auto simp: adapter_line_def)
  then show ?thesis by (simp add: listing_def)
qed

text \<open>The invariant of the loop, pass by pass and for the value returned.\<close>

lemma handle_number_grows:
  assumes "handle_number adapters sel n stdin = (out, fl, rest)"
    and "fl = Continue sel' \<or> fl = Break sel'"
  shows "grows adapters sel out sel'"
proof -
  have a: "sel @ [g] \<noteq> []" for g by simp
  have b: "g \<in> set sel \<Longrightarrow> sel \<noteq> []" for g by auto
  have c: "1 \<le> n \<Longrightarrow> n \<le> int (length adapters) \<Longrightarrow> adapters ! nat (n - 1) \<in> set adapters"
    by (simp add: nat_less_iff)
  from assms c show ?thesis
    unfolding grows_def
    by (auto simp: handle_number_def prepend_def after_selection_no_question [OF a]
        after_selection_no_question [OF b] Let_def dict_item_def
        split: sum.splits if_splits option.splits)
qed

lemma loop_body_grows:
  assumes "loop_body adapters sel stdin = (out, fl, rest)"
    and "fl = Continue sel' \<or> fl = Break sel'"
  shows "grows adapters sel out sel'"
  using assms
  by (auto simp: loop_body_def prepend_def Let_def grows_def [of adapters sel "[Print InvalidInput]"]
      grows_def [of adapters sel "[]"] grows_def [of adapters sel "Input _ # _"]
      split: list.splits option.splits prod.splits if_splits
      dest!: handle_number_grows [where sel' = sel'])
    (auto simp: grows_def)

lemma grows_ok:
  "selection_ok adapters out sel \<Longrightarrow> grows adapters sel out' sel' \<Longrightarrow>
   selection_ok adapters (out @ out') sel'"
  by (auto simp: selection_ok_def grows_def added_guids_append)

lemma loop_body_return:
  "loop_body adapters sel stdin = (out, Return v, rest) \<Longrightarrow> v = []"
proof -
  have a: "sel @ [g] \<noteq> []" for g by simp
  have b: "g \<in> set sel \<Longrightarrow> sel \<noteq> []" for g by auto
  show "loop_body adapters sel stdin = (out, Return v, rest) \<Longrightarrow> ?thesis"
    by (auto simp: loop_body_def handle_number_def prepend_def after_selection_no_question [OF a]
        after_selection_no_question [OF b] Let_def
        split: list.splits sum.splits if_splits option.splits)
qed

lemma at_loop_head_ok:
  "at_loop_head adapters out sel \<Longrightarrow> selection_ok adapters out sel"
proof (induction rule: at_loop_head.induct)
  case entered
  then show ?case by (simp add: selection_ok_def)
next
  case (round out sel stdin out' sel' rest)
  from round.IH loop_body_grows [OF round.hyps(2)] show ?case
    by (auto intro: grows_ok)
qed

lemma select_loop_ok:
  "selection_ok adapters out0 sel \<Longrightarrow> select_loop adapters sel stdin = (out, Inr r, rest) \<Longrightarrow>
   r = [] \<or> selection_ok adapters (out0 @ out) r"
proof (induction adapters sel stdin arbitrary: out0 out rule: select_loop.induct)
  case (1 adapters sel stdin)
  obtain o1 fl r1 where b: "loop_body adapters sel stdin = (o1, fl, r1)"
    by (cases "loop_body adapters sel stdin") auto
  show ?case
  proof (cases fl)
    case (Continue sel')
    from "1.prems"(2) b Continue
    obtain out' where o: "select_loop adapters sel' r1 = (out', Inr r, rest)" "out = o1 @ out'"
      by (subst (asm) select_loop.simps) (auto simp: prepend_def split: prod.splits)
    have k: "selection_ok adapters (out0 @ o1) sel'"
      using "1.prems"(1) loop_body_grows [OF b] Continue by (auto intro: grows_ok)
    from "1.IH" [OF b [symmetric] _ _ k o(1)] Continue o(2) show ?thesis
      by simp
  next
    case (Break sel')
    from "1.prems"(2) b Break have "r = sel'" "out = o1"
      by (subst (asm) select_loop.simps, simp)+
    with "1.prems"(1) loop_body_grows [OF b] Break show ?thesis
      by (auto intro: grows_ok)
  next
    case (Return v)
    from "1.prems"(2) b Return have "r = v"
      by (subst (asm) select_loop.simps) simp
    with loop_body_return b Return show ?thesis by auto
  next
    case (Raise e)
    with "1.prems"(2) b show ?thesis
      by (subst (asm) select_loop.simps) simp
  qed
qed

lemma selector_ok:
  assumes "select_guids_for_tweaks (Some adapters) stdin = (out, Inr r, rest)"
  shows "r = [] \<or> selection_ok adapters out r"
proof (cases adapters)
  case Nil
  with assms show ?thesis by (simp add: select_guids_for_tweaks_def)
next
  case (Cons a more)
  with assms obtain out' where
    o: "select_loop adapters [] stdin = (out', Inr r, rest)"
      "out = (Print AvailableAdapters # listing adapters @ guidance) @ out'"
    by (auto simp: select_guids_for_tweaks_def prepend_def split: prod.splits)
  have "selection_ok adapters (Print AvailableAdapters # listing adapters @ guidance) []"
    by (simp add: selection_ok_def added_guids_append added_guids_listing guidance_def)
  from select_loop_ok [OF this o(1)] o(2) show ?thesis by simp
qed

lemma loop_body_not_full:
  "loop_body adapters sel stdin = (out, Continue sel', rest) \<Longrightarrow>
   length sel \<noteq> length adapters \<Longrightarrow> length sel' \<noteq> length adapters"
  by (auto simp: loop_body_def handle_number_def prepend_def after_selection_def ask_add_more_def
      Let_def split: list.splits sum.splits if_splits option.splits)

lemma at_loop_head_not_full:
  "at_loop_head adapters out sel \<Longrightarrow> length sel \<noteq> length adapters"
  by (induction rule: at_loop_head.induct) (auto dest: loop_body_not_full)

text \<open>A state of the loop for the examples: two adapters, the first one selected.\<close>

lemma example_loop_head:
  "at_loop_head [adapter_of ''Ethernet'' ''Intel'' ''G1'', adapter_of ''Wi-Fi'' ''Realtek'' ''G2'']
     [Input PromptFirst, Print (Added ''Ethernet'' ''G1'')] [''G1'']"
proof -
  let ?ads = "[adapter_of ''Ethernet'' ''Intel'' ''G1'', adapter_of ''Wi-Fi'' ''Realtek'' ''G2'']"
  have "loop_body ?ads [] [''1''] =
      ([Input PromptFirst, Print (Added ''Ethernet'' ''G1'')], Continue [''G1''], [])"
    by (simp add: sel_eval)
  from at_loop_head.round [OF at_loop_head.entered this] show ?thesis by simp
qed

text \<open>\<^verbatim>\<open>int\<close> reads a decimal number back, and \<^verbatim>\<open>strip\<close> and \<^verbatim>\<open>lower\<close> leave it alone.\<close>

lemma of_char_digit_char: "d < 10 \<Longrightarrow> (of_char (digit_char d) :: nat) = 48 + d"
  by (simp add: digit_char_def)

lemma digit_char_facts:
  assumes "d < 10"
  shows "is_digit (digit_char d)" and "digit_value (digit_char d) = int d"
    and "\<not> is_space (digit_char d)" and "lower_char (digit_char d) = digit_char d"
  using of_char_digit_char [OF assms] assms
  by (simp_all add: is_digit_def digit_value_def is_space_def lower_char_def)

lemma is_digit_facts:
  assumes "is_digit c"
  shows "\<not> is_space c" and "lower_char c = c" and "c \<noteq> CHR ''-''" and "c \<noteq> CHR ''+''"
  using assms by (auto simp: is_digit_def is_space_def lower_char_def Let_def)

lemma decimal_digits: "list_all is_digit (decimal n) \<and> decimal n \<noteq> []"
  by (induction n rule: decimal.induct) (subst decimal.simps, simp add: digit_char_facts)+

lemma strip_digits: "list_all is_digit s \<Longrightarrow> strip s = s"
proof (cases "s = []")
  case True
  then show ?thesis by (simp add: strip_def)
next
  case False
  assume a: "list_all is_digit s"
  from a False have "is_digit (hd s)" and "is_digit (last s)"
    by (simp_all add: list_all_iff)
  then have h: "\<not> is_space (hd s)" and l: "\<not> is_space (hd (rev s))"
    using False by (simp_all add: hd_rev is_digit_facts)
  from h have 1: "dropWhile is_space s = s"
    by (simp add: dropWhile_eq_self_iff)
  from l have 2: "dropWhile is_space (rev s) = rev s"
    by (simp add: dropWhile_eq_self_iff)
  show ?thesis by (simp add: strip_def 1 2)
qed

lemma lower_digits: "list_all is_digit s \<Longrightarrow> lower s = s"
  by (induction s) (auto simp: lower_def is_digit_facts)

lemma digits_value_fold:
  "list_all is_digit ds \<Longrightarrow>
   digits_value acc ds = Some (foldl (\<lambda>a c. 10 * a + digit_value c) acc ds)"
  by (induction acc ds rule: digits_value.induct) auto

lemma unsigned_value_fold:
  "list_all is_digit s \<Longrightarrow> s \<noteq> [] \<Longrightarrow>
   unsigned_value s = Some (foldl (\<lambda>a c. 10 * a + digit_value c) 0 s)"
  by (cases s) (auto simp: unsigned_value_def digits_value_fold)

lemma decimal_fold: "foldl (\<lambda>a c. 10 * a + digit_value c) 0 (decimal n) = int n"
proof (induction n rule: decimal.induct)
  case (1 n)
  show ?case
  proof (cases "n < 10")
    case True
    then show ?thesis by (subst decimal.simps) (simp add: digit_char_facts)
  next
    case False
    have "10 * int (n div 10) + int (n mod 10) = int n"
      by (simp add: zdiv_int zmod_int)
    with False 1 show ?thesis
      by (subst decimal.simps) (simp add: digit_char_facts)
  qed
qed

lemma py_int_decimal: "py_int (lower (strip (decimal n))) = Some (int n)"
proof -
  note d = decimal_digits [of n]
  from d obtain c cs where c: "decimal n = c # cs" "is_digit c"
    by (cases "decimal n") auto
  have "py_int (decimal n) = unsigned_value (decimal n)"
    using c d is_digit_facts(3,4) [OF c(2)] by (simp add: py_int_def strip_digits)
  then show ?thesis
    using d by (simp add: strip_digits lower_digits unsigned_value_fold decimal_fold)
qed

text \<open>Selecting an adapter that was not selected yet, and selecting all of them in turn.\<close>

lemma guid_at:
  "map (\<lambda>a. a ''InterfaceGuid'') adapters = map Some guids \<Longrightarrow> i < length adapters \<Longrightarrow>
   (adapters ! i) ''InterfaceGuid'' = Some (guids ! i)"
proof -
  assume a: "map (\<lambda>a. a ''InterfaceGuid'') adapters = map Some guids" and i: "i < length adapters"
  from a have "length guids = length adapters"
    using length_map by metis
  with i have "map (\<lambda>a. a ''InterfaceGuid'') adapters ! i = map Some guids ! i \<Longrightarrow> ?thesis"
    by simp
  with a show ?thesis by simp
qed

lemma fresh_guid:
  "distinct guids \<Longrightarrow> i < length guids \<Longrightarrow> \<forall>j\<in>set pre. j < length guids \<Longrightarrow> i \<notin> set pre \<Longrightarrow>
   guids ! i \<notin> set (map ((!) guids) pre)"
  by (auto simp: nth_eq_iff_index_eq)

lemma permutation_length:
  "distinct xs \<Longrightarrow> set xs = {..<n} \<Longrightarrow> length xs = n"
  using distinct_card [of xs] by simp


lemma select_new_step:
  assumes "py_int (lower (strip l)) = Some (int i + 1)" and "i < length adapters"
    and "(adapters ! i) ''InterfaceGuid'' = Some g" and "(adapters ! i) ''Name'' = Some name"
    and "g \<notin> set sel"
  shows "loop_body adapters sel (l # rest) =
     (if length sel + 1 = length adapters
      then ([Input (prompt_message sel), Print (Added name g), Print AllSelected],
            Break (sel @ [g]), rest)
      else ([Input (prompt_message sel), Print (Added name g)], Continue (sel @ [g]), rest))"
proof -
  have "handle_number adapters sel (int i + 1) rest =
      prepend [Print (Added name g)] (after_selection adapters (sel @ [g]) rest)"
    using assms(2-5) by (simp add: handle_number_def dict_item_def)
  then show ?thesis
    by (simp add: number_step [OF assms(1)] prepend_def after_selection_def)
qed


lemma select_every_adapter_loop:
  assumes g: "map (\<lambda>a. a ''InterfaceGuid'') adapters = map Some guids"
    and d: "distinct guids"
    and nm: "\<forall>a\<in>set adapters. a ''Name'' \<noteq> None"
  shows "js \<noteq> [] \<Longrightarrow> distinct (pre @ js) \<Longrightarrow> set (pre @ js) = {..<length adapters} \<Longrightarrow>
     map (\<lambda>l. py_int (lower (strip l))) ls = map (\<lambda>i. Some (int i + 1)) js \<Longrightarrow>
     \<exists>out. select_loop adapters (map ((!) guids) pre) (ls @ later) =
       (out @ [Print AllSelected], Inr (map ((!) guids) (pre @ js)), later)"
proof (induction js arbitrary: pre ls)
  case Nil
  then show ?case by simp
next
  case (Cons i js)
  note IH = Cons.IH and prems = Cons.prems
  let ?sel = "map ((!) guids) pre"
  from g have len: "length guids = length adapters"
    using length_map by metis
  from prems(4) obtain l ls' where ls: "ls = l # ls'"
    and pl: "py_int (lower (strip l)) = Some (int i + 1)"
    and rest: "map (\<lambda>l. py_int (lower (strip l))) ls' = map (\<lambda>i. Some (int i + 1)) js"
    by (cases ls) auto
  from prems(3) have i: "i < length adapters" by auto
  from prems(3) have pre: "\<forall>j\<in>set pre. j < length guids" by (auto simp: len)
  from prems(2) have inp: "i \<notin> set pre" by auto
  note gi = guid_at [OF g i]
  from nm i have "(adapters ! i) ''Name'' \<noteq> None"
    using nth_mem by blast
  then obtain name where ni: "(adapters ! i) ''Name'' = Some name"
    by blast
  have new: "guids ! i \<notin> set ?sel"
    using fresh_guid [OF d _ pre inp] i len by simp
  have total: "length pre + 1 + length js = length adapters"
    using permutation_length [OF prems(2,3)] by simp
  note b = select_new_step [OF pl i gi ni new, of "ls' @ later"]
  show ?case
  proof (cases js)
    case Nil
    with rest have e: "ls' = []" by simp
    from Nil total have full: "length ?sel + 1 = length adapters" by simp
    have "select_loop adapters ?sel (l # ls' @ later) =
        ([Input (prompt_message ?sel), Print (Added name (guids ! i)), Print AllSelected],
         Inr (?sel @ [guids ! i]), ls' @ later)"
    proof -
      from b full have "loop_body adapters ?sel (l # ls' @ later) =
        ([Input (prompt_message ?sel), Print (Added name (guids ! i)), Print AllSelected],
         Break (?sel @ [guids ! i]), ls' @ later)"
        by simp
      then show ?thesis
        by (subst select_loop.simps) simp
    qed
    with ls e Nil show ?thesis
      by (intro exI [of _ "[Input (prompt_message ?sel), Print (Added name (guids ! i))]"]) simp
  next
    case (Cons j js')
    with total have part: "length ?sel + 1 \<noteq> length adapters" by simp
    have "\<exists>out. select_loop adapters (map ((!) guids) (pre @ [i])) (ls' @ later) =
       (out @ [Print AllSelected], Inr (map ((!) guids) ((pre @ [i]) @ js)), later)"
    proof (rule IH)
      show "js \<noteq> []" using Cons by simp
      show "distinct ((pre @ [i]) @ js)" using prems(2) by simp
      show "set ((pre @ [i]) @ js) = {..<length adapters}" using prems(3) by simp
      show "map (\<lambda>l. py_int (lower (strip l))) ls' = map (\<lambda>i. Some (int i + 1)) js" by (rule rest)
    qed
    then obtain out where
      o: "select_loop adapters (?sel @ [guids ! i]) (ls' @ later) =
         (out @ [Print AllSelected], Inr (map ((!) guids) (pre @ i # js)), later)"
      by auto
    have "select_loop adapters ?sel (l # ls' @ later) =
        prepend [Input (prompt_message ?sel), Print (Added name (guids ! i))]
          (select_loop adapters (?sel @ [guids ! i]) (ls' @ later))"
    proof -
      from b part have "loop_body adapters ?sel (l # ls' @ later) =
        ([Input (prompt_message ?sel), Print (Added name (guids ! i))],
         Continue (?sel @ [guids ! i]), ls' @ later)"
        by simp
      then show ?thesis
        by (subst select_loop.simps) simp
    qed
    with ls o show ?thesis
      by (intro exI [of _ "[Input (prompt_message ?sel), Print (Added name (guids ! i))] @ out"])
        (simp add: prepend_def)
  qed
qed

text \<open>
  A run that has read all of \<open>pre\<close> stands at the head of the loop in some state, and goes on
  from that state on the lines that follow.
\<close>

lemma at_prompt_after_prefix:
  "select_loop adapters sel0 pre = (out, Inl EOFError, []) \<Longrightarrow>
   at_loop_head adapters out0 sel0 \<Longrightarrow>
   \<exists>sel out'. out = out' @ [Input (prompt_message sel)]
     \<and> at_loop_head adapters (out0 @ out') sel
     \<and> (\<forall>later. select_loop adapters sel0 (pre @ later) =
           prepend out' (select_loop adapters sel later))"
proof (induction adapters sel0 pre arbitrary: out out0 rule: select_loop.induct)
  case (1 adapters sel0 pre)
  show ?case
  proof (cases pre)
    case Nil
    with "1.prems"(1) have o: "out = [] @ [Input (prompt_message sel0)]"
      by (simp add: select_loop_empty)
    have "\<forall>later. select_loop adapters sel0 (pre @ later) =
           prepend [] (select_loop adapters sel0 later)"
      using Nil by (simp add: prepend_def)
    with o "1.prems"(2) show ?thesis
      by (intro exI [of _ sel0] exI [of _ "[]"]) simp
  next
    case (Cons p ps)
    obtain o1 fl r where b: "loop_body adapters sel0 (p # ps) = (o1, fl, r)"
      by (cases "loop_body adapters sel0 (p # ps)") auto
    note m = loop_body_more [OF b]
    show ?thesis
    proof (cases fl)
      case (Continue sel')
      from "1.prems"(1) b Cons Continue m(1)
      obtain out1 where o: "select_loop adapters sel' ps = (out1, Inl EOFError, [])" "out = o1 @ out1"
        by (subst (asm) select_loop.simps) (auto simp: prepend_def split: prod.splits)
      have h': "at_loop_head adapters (out0 @ o1) sel'"
        using at_loop_head.round [OF "1.prems"(2)] b Continue by simp
      from "1.IH" [of o1 "(Continue sel', r)" "Continue sel'" r sel' out1 "out0 @ o1"]
        b Cons Continue m(1) o(1) h'
      obtain sel out2 where s: "out1 = out2 @ [Input (prompt_message sel)]"
        "at_loop_head adapters ((out0 @ o1) @ out2) sel"
        "\<forall>later. select_loop adapters sel' (ps @ later) = prepend out2 (select_loop adapters sel later)"
        by auto
      have "select_loop adapters sel0 (pre @ later) =
           prepend (o1 @ out2) (select_loop adapters sel later)" for later
      proof -
        have "loop_body adapters sel0 (p # ps @ later) = (o1, Continue sel', ps @ later)"
          using m(2) [of "ps @ later"] Continue by simp
        then have "select_loop adapters sel0 (p # ps @ later) =
            prepend o1 (select_loop adapters sel' (ps @ later))"
          by (subst select_loop.simps) simp
        with s(3) Cons show ?thesis
          by (simp add: prepend_def split: prod.splits)
      qed
      with s(1,2) o(2) show ?thesis
        by (intro exI [of _ sel] exI [of _ "o1 @ out2"]) simp
    next
      case (Break x)
      with "1.prems"(1) b Cons show ?thesis
        by (subst (asm) select_loop.simps) simp
    next
      case (Return x)
      with "1.prems"(1) b Cons show ?thesis
        by (subst (asm) select_loop.simps) simp
    next
      case (Raise e)
      with "1.prems"(1) b Cons loop_body_no_eof [of adapters sel0 p ps o1 e r] show ?thesis
        by (subst (asm) select_loop.simps) simp
    qed
  qed
qed

text \<open>
  The selection that completes the list ends the loop: from a head of the loop, and in the
  whole call after any lines that leave it at the prompt.
\<close>

lemma among_values:
  "map f xs = map Some ys \<Longrightarrow> a \<in> set xs \<Longrightarrow> f a = Some x \<Longrightarrow> x \<in> set ys"
proof -
  assume m: "map f xs = map Some ys" and a: "a \<in> set xs" and f: "f a = Some x"
  from a have "f a \<in> f ` set xs"
    by (rule imageI)
  then have "Some x \<in> set (map f xs)"
    unfolding f by simp
  then have "Some x \<in> set (map Some ys)"
    unfolding m .
  then show "x \<in> set ys"
    by (simp add: image_iff)
qed

lemma selected_among_guids:
  assumes g: "map (\<lambda>a. a ''InterfaceGuid'') adapters = map Some guids"
    and h: "at_loop_head adapters out sel"
  shows "set sel \<subseteq> set guids"
proof
  fix x assume x: "x \<in> set sel"
  from at_loop_head_ok [OF h]
  have b: "\<forall>g\<in>set sel. \<exists>a\<in>set adapters. a ''InterfaceGuid'' = Some g"
    by (simp add: selection_ok_def)
  from bspec [OF b x] obtain a where a: "a \<in> set adapters" "a ''InterfaceGuid'' = Some x"
    by (rule bexE)
  show "x \<in> set guids"
    by (rule among_values [of "\<lambda>a. a ''InterfaceGuid''" adapters guids a x, OF g a])
qed

lemma last_one_fills:
  assumes "distinct sel" and "set sel \<subseteq> set guids" and "distinct guids"
    and "x \<notin> set sel" and "x \<in> set guids" and "set guids \<subseteq> insert x (set sel)"
  shows "length sel + 1 = length guids" and "set (sel @ [x]) = set guids"
proof -
  from assms(2,5,6) show s: "set (sel @ [x]) = set guids"
    by auto
  from assms(1,4) have "distinct (sel @ [x])"
    by simp
  from distinct_card [OF this] distinct_card [OF assms(3)] s
  show "length sel + 1 = length guids"
    by simp
qed

lemma last_selection_ends:
  assumes g: "map (\<lambda>a. a ''InterfaceGuid'') adapters = map Some guids"
    and d: "distinct guids"
    and h: "at_loop_head adapters out sel"
    and l: "py_int (lower (strip l)) = Some (int i + 1)" and i: "i < length adapters"
    and ni: "(adapters ! i) ''Name'' = Some name"
    and fresh: "guids ! i \<notin> set sel"
    and cover: "set guids \<subseteq> insert (guids ! i) (set sel)"
  shows "select_loop adapters sel (l # later) =
           ([Input (prompt_message sel), Print (Added name (guids ! i)), Print AllSelected],
            Inr (sel @ [guids ! i]), later)"
    and "distinct (sel @ [guids ! i])" and "set (sel @ [guids ! i]) = set guids"
proof -
  from g have len: "length guids = length adapters"
    using length_map by metis
  from at_loop_head_ok [OF h, unfolded selection_ok_def] have ds: "distinct sel"
    by (rule conjunct1)
  note sub = selected_among_guids [OF g h]
  from i len have mem: "guids ! i \<in> set guids"
    by simp
  note f = last_one_fills [OF ds sub d fresh mem cover]
  from f(1) len have full: "length sel + 1 = length adapters"
    by simp
  from ds fresh show "distinct (sel @ [guids ! i])"
    by simp
  show "set (sel @ [guids ! i]) = set guids"
    by (rule f(2))
  from select_new_step [OF l i guid_at [OF g i] ni fresh, of later] full
  have "loop_body adapters sel (l # later) =
      ([Input (prompt_message sel), Print (Added name (guids ! i)), Print AllSelected],
       Break (sel @ [guids ! i]), later)"
    by simp
  then show "select_loop adapters sel (l # later) =
           ([Input (prompt_message sel), Print (Added name (guids ! i)), Print AllSelected],
            Inr (sel @ [guids ! i]), later)"
    by (subst select_loop.simps) simp
qed

lemma last_selection_ends_call:
  assumes g: "map (\<lambda>a. a ''InterfaceGuid'') adapters = map Some guids"
    and d: "distinct guids"
    and p: "select_guids_for_tweaks (Some adapters) pre = (trace, Inl EOFError, [])"
    and l: "py_int (lower (strip l)) = Some (int i + 1)" and i: "i < length adapters"
    and ni: "(adapters ! i) ''Name'' = Some name"
    and fresh: "guids ! i \<notin> set (added_guids trace)"
    and cover: "set guids \<subseteq> insert (guids ! i) (set (added_guids trace))"
  shows "select_guids_for_tweaks (Some adapters) (pre @ l # later) =
           (trace @ [Print (Added name (guids ! i)), Print AllSelected],
            Inr (added_guids trace @ [guids ! i]), later)"
    and "distinct (added_guids trace @ [guids ! i])"
    and "set (added_guids trace @ [guids ! i]) = set guids"
proof -
  let ?head = "Print AvailableAdapters # listing adapters @ guidance"
  from i obtain a rest where c: "adapters = a # rest"
    by (cases adapters) auto
  from p c obtain out where
    o: "select_loop adapters [] pre = (out, Inl EOFError, [])" "trace = ?head @ out"
    by (auto simp: select_guids_for_tweaks_def prepend_def split: prod.splits)
  from c have e: "at_loop_head adapters [] []"
    by (simp add: at_loop_head.entered)
  from at_prompt_after_prefix [OF o(1) e] obtain sel out' where
    s: "out = out' @ [Input (prompt_message sel)]" "at_loop_head adapters out' sel"
      "\<And>later. select_loop adapters [] (pre @ later) = prepend out' (select_loop adapters sel later)"
    by auto
  note at_loop_head_ok [OF s(2), unfolded selection_ok_def, THEN conjunct2, THEN conjunct2]
  then have a: "added_guids trace = sel"
    by (simp add: o(2) s(1) added_guids_append added_guids_listing guidance_def)
  note k = last_selection_ends [OF g d s(2) l i ni fresh [unfolded a] cover [unfolded a]]
  show "distinct (added_guids trace @ [guids ! i])"
    and "set (added_guids trace @ [guids ! i]) = set guids"
    unfolding a by (rule k(2), rule k(3))
  show "select_guids_for_tweaks (Some adapters) (pre @ l # later) =
           (trace @ [Print (Added name (guids ! i)), Print AllSelected],
            Inr (added_guids trace @ [guids ! i]), later)"
  proof -
    have e1: "select_loop adapters [] (pre @ l # later) =
        (out' @ [Input (prompt_message sel), Print (Added name (guids ! i)), Print AllSelected],
         Inr (sel @ [guids ! i]), later)"
      by (simp add: s(3) k(1) prepend_def)
    have e2: "select_guids_for_tweaks (Some adapters) (pre @ l # later) =
        prepend ?head (select_loop adapters [] (pre @ l # later))"
      using c by (simp add: select_guids_for_tweaks_def)
    show ?thesis
      unfolding a by (simp add: e2 e1 prepend_def o(2) s(1))
  qed
qed

text \<open>Neither the enumerator nor the selector prompts out of turn or calls \<^verbatim>\<open>ShellExecuteW\<close>.\<close>

lemma enumerator_quiet:
  "get_network_adapters_from_powershell q = (out, r) \<Longrightarrow>
   \<not> list_ex is_prompt out \<and> \<not> list_ex is_elevation out"
  by (cases q rule: get_network_adapters_from_powershell.cases)
    (auto simp: enumeration_error_def)

lemma listing_quiet:
  "\<not> list_ex is_prompt (listing xs)" "\<not> list_ex is_elevation (listing xs)"
  by (auto simp: listing_def adapter_line_def list_ex_iff)

lemma handle_number_no_elevation:
  "handle_number adapters sel n stdin = (out, fl, rest) \<Longrightarrow> \<not> list_ex is_elevation out"
  by (auto simp: handle_number_def prepend_def after_selection_def ask_add_more_def Let_def
      split: sum.splits if_splits list.splits)

lemma loop_body_no_elevation:
  "loop_body adapters sel stdin = (out, fl, rest) \<Longrightarrow> \<not> list_ex is_elevation out"
  by (auto simp: loop_body_def prepend_def Let_def
      split: list.splits option.splits prod.splits if_splits dest: handle_number_no_elevation)

lemma select_loop_no_elevation:
  "\<not> list_ex is_elevation (fst (select_loop adapters sel stdin))"
proof (induction adapters sel stdin rule: select_loop.induct)
  case (1 adapters sel stdin)
  obtain out fl rest where b: "loop_body adapters sel stdin = (out, fl, rest)"
    by (cases "loop_body adapters sel stdin") auto
  have o: "\<not> list_ex is_elevation out"
    using loop_body_no_elevation [OF b] .
  show ?case
  proof (cases fl)
    case (Continue sel')
    with 1 [OF b [symmetric]] b o show ?thesis
      by (subst select_loop.simps) (auto simp: prepend_def split: prod.splits)
  qed (use b o in \<open>subst select_loop.simps, simp\<close>)+
qed

lemma selector_no_elevation:
  "select_guids_for_tweaks adapters stdin = (out, r, rest) \<Longrightarrow> \<not> list_ex is_elevation out"
  using select_loop_no_elevation listing_quiet(2)
  by (auto simp: select_guids_for_tweaks_def prepend_def guidance_def
      split: option.splits list.splits prod.splits)
    (metis fst_conv)+

lemma filter_none: "\<not> list_ex P xs \<Longrightarrow> filter P xs = []"
  by (induction xs) auto

lemma report_launch_no_elevation: "filter is_elevation (report_launch outcome) = []"
  by (simp add: report_launch_def split: shell_outcome.splits)

lemma launch_elevation:
  "filter is_elevation (launch path sel outcome) =
     [ShellExecuteW ''runas'' ''powershell.exe'' (script_parameters path (join '','' sel)) 1]"
  by (simp add: launch_def Let_def report_launch_no_elevation)

lemma split_commas_piece:
  "CHR '','' \<notin> set x \<Longrightarrow> split_commas (x @ CHR '','' # r) = x # split_commas r"
  by (induction x) auto

lemma split_commas_plain: "CHR '','' \<notin> set x \<Longrightarrow> split_commas x = [x]"
  by (induction x) auto

lemma split_commas_join:
  "sel \<noteq> [] \<Longrightarrow> \<forall>g\<in>set sel. CHR '','' \<notin> set g \<Longrightarrow> split_commas (join '','' sel) = sel"
  by (induction "'',''" sel rule: join.induct) (auto simp: split_commas_piece split_commas_plain)

section \<open>The enumerator\<close>

text \<open>
  Claim C8. When the query's output parses to one bare object, the enumerator returns the
  list of exactly that record: it does not return \<^verbatim>\<open>None\<close> and does not return an empty
  list, and it raises no dialog. When the output parses to a list, that list is returned as
  it is.
\<close>

theorem single_record_is_wrapped:
  "get_network_adapters_from_powershell (Loaded (JObject r)) =
     ([Print FetchingAdapters, RunPowerShell], Some [r])
   \<and> get_network_adapters_from_powershell (Loaded (JArray rs)) =
     ([Print FetchingAdapters, RunPowerShell], Some rs)"
  by simp

section \<open>The launcher's reading of the return value\<close>

text \<open>What the code does for every return value, by the chain of tests in its order.\<close>

lemma report_launch_success:
  "32 < ret \<Longrightarrow> report_launch (Returned ret) = [Print LaunchRequested]"
  by (simp add: report_launch_def)

lemma report_launch_failure:
  "ret \<le> 32 \<Longrightarrow>
   report_launch (Returned ret) =
     [MessageBoxW (LaunchFailed ret (error_detail ret)) ''Launch Error'' 16,
      Print (LaunchFailed ret (error_detail ret))]"
  by (simp add: report_launch_def)

lemma error_detail_generic:
  "ret \<notin> {0, 2, 3, 5, 1223} \<Longrightarrow> error_detail ret = ReferToDocumentation"
  by (simp add: error_detail_def)

text \<open>
  Claim C1. The claim asks that the return value 1223 be reported as cancelled by the user.
  The branch for 1223 sits under the test \<^verbatim>\<open>ret <= 32\<close>, which 1223 fails: the value is
  taken for a success, nothing is reported and no dialog is raised. The other values of the
  claim are read as it says: 5 is access denied, 2 is file not found, 17 (a value between 1
  and 32 with no branch of its own) gets the generic text, and 33 is a success.
\<close>

theorem return_1223_is_taken_for_success:
  "report_launch (Returned 1223) = [Print LaunchRequested]
   \<and> report_launch (Returned 5) =
       [MessageBoxW (LaunchFailed 5 AccessDenied) ''Launch Error'' 16, Print (LaunchFailed 5 AccessDenied)]
   \<and> report_launch (Returned 2) =
       [MessageBoxW (LaunchFailed 2 FileNotFound) ''Launch Error'' 16, Print (LaunchFailed 2 FileNotFound)]
   \<and> report_launch (Returned 17) =
       [MessageBoxW (LaunchFailed 17 ReferToDocumentation) ''Launch Error'' 16,
        Print (LaunchFailed 17 ReferToDocumentation)]
   \<and> report_launch (Returned 33) = [Print LaunchRequested]"
  by (simp add: report_launch_def error_detail_def)

section \<open>The selector\<close>

text \<open>
  Claim C2. The claim asks that after the first successful selection the selector put the
  question "add another?" and that any answer but yes end the loop with the one identifier.
  The code never puts the question, for any adapters and any lines typed: the test at line
  102 is \<^verbatim>\<open>not selected_guids\<close>, and the list is not empty there. With two adapters and
  the lines 1, no, skip, the line "no" is read by the loop's own prompt and refused as
  invalid input, the loop goes on, and the line "skip" makes the call return the empty
  list; under the claim the call returns the first adapter's identifier at "no".
\<close>

theorem add_another_is_never_asked:
  "Input PromptAddAnother \<notin> set (fst (select_guids_for_tweaks adapters stdin))
   \<and> select_guids_for_tweaks
       (Some [adapter_of ''Ethernet'' ''Intel'' ''G1'', adapter_of ''Wi-Fi'' ''Realtek'' ''G2''])
       [''1'', ''no'', ''skip''] =
     ([Print AvailableAdapters, Print (AdapterLine 1 ''Ethernet'' ''Intel'' ''G1''),
       Print (AdapterLine 2 ''Wi-Fi'' ''Realtek'' ''G2''), Print AdapterSelection,
       Print GuidanceCanApply, Print GuidanceRecommended, Print GuidanceNotRecommended,
       Input PromptFirst, Print (Added ''Ethernet'' ''G1''), Input (PromptAnother ''G1''),
       Print InvalidInput, Input (PromptAnother ''G1''), Print SkippingAll],
      Inr [], [])"
proof
  have "Input PromptAddAnother \<notin> set (listing xs)" for xs
    by (auto simp: listing_def adapter_line_def)
  then show "Input PromptAddAnother \<notin> set (fst (select_guids_for_tweaks adapters stdin))"
    using select_loop_no_question
    by (auto simp: select_guids_for_tweaks_def prepend_def guidance_def
        split: option.splits list.splits prod.splits)
      (metis fst_conv)+
next
  show "select_guids_for_tweaks
       (Some [adapter_of ''Ethernet'' ''Intel'' ''G1'', adapter_of ''Wi-Fi'' ''Realtek'' ''G2''])
       [''1'', ''no'', ''skip''] =
     ([Print AvailableAdapters, Print (AdapterLine 1 ''Ethernet'' ''Intel'' ''G1''),
       Print (AdapterLine 2 ''Wi-Fi'' ''Realtek'' ''G2''), Print AdapterSelection,
       Print GuidanceCanApply, Print GuidanceRecommended, Print GuidanceNotRecommended,
       Input PromptFirst, Print (Added ''Ethernet'' ''G1''), Input (PromptAnother ''G1''),
       Print InvalidInput, Input (PromptAnother ''G1''), Print SkippingAll],
      Inr [], [])"
    by (simp add: sel_eval)
qed

text \<open>
  Claim C7. A line that reads \<^verbatim>\<open>skip\<close> once stripped and lowered, read at the loop's
  prompt, makes the selector return the empty list at once, whatever the adapters and
  whatever was selected before. First for the loop started from any list \<open>sel\<close> of
  identifiers already selected; then for the whole call, after any lines \<open>pre\<close> that leave
  the call waiting at the prompt (on \<open>pre\<close> alone it ends in \<^verbatim>\<open>EOFError\<close>): the lines after
  \<^verbatim>\<open>skip\<close> are not read.
\<close>

theorem skip_returns_empty_selection:
  assumes "lower (strip l) = ''skip''"
  shows "select_loop adapters sel (l # rest) =
           ([Input (prompt_message sel), Print SkippingAll], Inr [], rest)
         \<and> (select_guids_for_tweaks (Some adapters) pre = (out, Inl EOFError, []) \<longrightarrow>
            select_guids_for_tweaks (Some adapters) (pre @ l # rest) =
              (out @ [Print SkippingAll], Inr [], rest))"
proof (intro conjI impI)
  show "select_loop adapters sel (l # rest) =
          ([Input (prompt_message sel), Print SkippingAll], Inr [], rest)"
    by (subst select_loop.simps) (simp add: skip_step [OF assms])
next
  assume h: "select_guids_for_tweaks (Some adapters) pre = (out, Inl EOFError, [])"
  show "select_guids_for_tweaks (Some adapters) (pre @ l # rest) =
          (out @ [Print SkippingAll], Inr [], rest)"
  proof (cases adapters)
    case Nil
    with h show ?thesis by (simp add: select_guids_for_tweaks_def)
  next
    case (Cons a more)
    with h obtain out' where
      o: "select_loop adapters [] pre = (out', Inl EOFError, [])"
        "out = Print AvailableAdapters # listing adapters @ guidance @ out'"
      by (auto simp: select_guids_for_tweaks_def prepend_def split: prod.splits)
    from skip_after_prefix [OF o(1) assms, of rest] Cons o(2) show ?thesis
      by (simp add: select_guids_for_tweaks_def prepend_def)
  qed
qed

theorem skip_returns_empty_selection_witness:
  "lower (strip '' SKIP '') = ''skip''
   \<and> select_loop [adapter_of ''Ethernet'' ''Intel'' ''G1'', adapter_of ''Wi-Fi'' ''Realtek'' ''G2'']
       [''G1''] ['' SKIP '', ''2''] =
     ([Input (PromptAnother ''G1''), Print SkippingAll], Inr [], [''2''])
   \<and> select_guids_for_tweaks
       (Some [adapter_of ''Ethernet'' ''Intel'' ''G1'', adapter_of ''Wi-Fi'' ''Realtek'' ''G2''])
       [''1'', '' SKIP '', ''2''] =
     ([Print AvailableAdapters, Print (AdapterLine 1 ''Ethernet'' ''Intel'' ''G1''),
       Print (AdapterLine 2 ''Wi-Fi'' ''Realtek'' ''G2''), Print AdapterSelection,
       Print GuidanceCanApply, Print GuidanceRecommended, Print GuidanceNotRecommended,
       Input PromptFirst, Print (Added ''Ethernet'' ''G1''), Input (PromptAnother ''G1''),
       Print SkippingAll], Inr [], [''2''])"
proof -
  have h: "lower (strip '' SKIP '') = ''skip''"
    by code_simp
  have p: "select_guids_for_tweaks
       (Some [adapter_of ''Ethernet'' ''Intel'' ''G1'', adapter_of ''Wi-Fi'' ''Realtek'' ''G2''])
       [''1''] =
     ([Print AvailableAdapters, Print (AdapterLine 1 ''Ethernet'' ''Intel'' ''G1''),
       Print (AdapterLine 2 ''Wi-Fi'' ''Realtek'' ''G2''), Print AdapterSelection,
       Print GuidanceCanApply, Print GuidanceRecommended, Print GuidanceNotRecommended,
       Input PromptFirst, Print (Added ''Ethernet'' ''G1''), Input (PromptAnother ''G1'')],
      Inl EOFError, [])"
    by (simp add: sel_eval)
  note t = skip_returns_empty_selection [OF h,
      of "[adapter_of ''Ethernet'' ''Intel'' ''G1'', adapter_of ''Wi-Fi'' ''Realtek'' ''G2'']"
         "[''G1'']" "[''2'']" "[''1'']" _]
  from t [THEN conjunct1] t [THEN conjunct2, rule_format, OF p] h show ?thesis
    by (simp add: prompt_message_def)
qed

text \<open>
  Claim C5. The adapters have their fields \<^verbatim>\<open>InterfaceGuid\<close> and \<^verbatim>\<open>Name\<close>, and the
  identifiers \<open>guids\<close> are pairwise distinct. Whatever the lines read before (repeats,
  numbers out of range and invalid lines among them), the line that selects the last
  adapter not selected yet ends the loop by itself: the selector prints that all were
  selected and returns, without reading the lines \<open>later\<close> that follow, so no \<^verbatim>\<open>done\<close> is
  needed. The list returned has every identifier once, in the order of first selection.
  This is stated three times. First from any head of the loop, with the list \<open>sel\<close> selected
  so far. Then for the whole call, after any lines \<open>pre\<close> that leave the call at its prompt
  (on \<open>pre\<close> alone it ends in \<^verbatim>\<open>EOFError\<close>), where the identifiers selected so far are
  those of the \<open>Added\<close> notices of the trace. Last for the runs that select each adapter
  once, in the order \<open>js\<close> of positions; the numbers in decimal digits are such lines.
\<close>

theorem selecting_every_adapter_ends_the_loop:
  assumes g: "map (\<lambda>a. a ''InterfaceGuid'') adapters = map Some guids"
    and d: "distinct guids"
    and nm: "\<forall>a\<in>set adapters. a ''Name'' \<noteq> None"
  shows "(at_loop_head adapters out sel
          \<and> py_int (lower (strip l)) = Some (int i + 1) \<and> i < length adapters
          \<and> guids ! i \<notin> set sel \<and> set guids \<subseteq> insert (guids ! i) (set sel) \<longrightarrow>
            (\<exists>name. select_loop adapters sel (l # later) =
               ([Input (prompt_message sel), Print (Added name (guids ! i)), Print AllSelected],
                Inr (sel @ [guids ! i]), later))
            \<and> distinct (sel @ [guids ! i]) \<and> set (sel @ [guids ! i]) = set guids)
         \<and> (select_guids_for_tweaks (Some adapters) pre = (trace, Inl EOFError, [])
          \<and> py_int (lower (strip l)) = Some (int i + 1) \<and> i < length adapters
          \<and> guids ! i \<notin> set (added_guids trace)
          \<and> set guids \<subseteq> insert (guids ! i) (set (added_guids trace)) \<longrightarrow>
            (\<exists>name. select_guids_for_tweaks (Some adapters) (pre @ l # later) =
               (trace @ [Print (Added name (guids ! i)), Print AllSelected],
                Inr (added_guids trace @ [guids ! i]), later))
            \<and> distinct (added_guids trace @ [guids ! i])
            \<and> set (added_guids trace @ [guids ! i]) = set guids)
         \<and> (adapters \<noteq> [] \<and> distinct js \<and> set js = {..<length adapters} \<longrightarrow>
            (map (\<lambda>l. py_int (lower (strip l))) ls = map (\<lambda>i. Some (int i + 1)) js \<longrightarrow>
               (\<exists>out. select_guids_for_tweaks (Some adapters) (ls @ later) =
                  (out @ [Print AllSelected], Inr (map ((!) guids) js), later)))
            \<and> (\<exists>out. select_guids_for_tweaks (Some adapters) (map (\<lambda>i. decimal (i + 1)) js @ later) =
                  (out @ [Print AllSelected], Inr (map ((!) guids) js), later))
            \<and> set (map ((!) guids) js) = set guids)"
proof -
  have named: "\<exists>name. (adapters ! i) ''Name'' = Some name" if "i < length adapters" for i
  proof -
    from that have "adapters ! i \<in> set adapters"
      by (rule nth_mem)
    with nm have "(adapters ! i) ''Name'' \<noteq> None"
      by (rule bspec)
    then show ?thesis
      by (cases "(adapters ! i) ''Name''") simp_all
  qed
  have one: "(\<exists>name. select_loop adapters sel (l # later) =
               ([Input (prompt_message sel), Print (Added name (guids ! i)), Print AllSelected],
                Inr (sel @ [guids ! i]), later))
            \<and> distinct (sel @ [guids ! i]) \<and> set (sel @ [guids ! i]) = set guids"
    if h: "at_loop_head adapters out sel"
      and l: "py_int (lower (strip l)) = Some (int i + 1)" and i: "i < length adapters"
      and f: "guids ! i \<notin> set sel" and c: "set guids \<subseteq> insert (guids ! i) (set sel)"
  proof -
    from named [OF i] obtain name where ni: "(adapters ! i) ''Name'' = Some name" ..
    note k = last_selection_ends [OF g d h l i ni f c]
    from k(1) have "\<exists>name. select_loop adapters sel (l # later) =
               ([Input (prompt_message sel), Print (Added name (guids ! i)), Print AllSelected],
                Inr (sel @ [guids ! i]), later)"
      by (rule exI)
    with k(2,3) show ?thesis
      by (intro conjI)
  qed
  have two: "(\<exists>name. select_guids_for_tweaks (Some adapters) (pre @ l # later) =
               (trace @ [Print (Added name (guids ! i)), Print AllSelected],
                Inr (added_guids trace @ [guids ! i]), later))
            \<and> distinct (added_guids trace @ [guids ! i])
            \<and> set (added_guids trace @ [guids ! i]) = set guids"
    if p: "select_guids_for_tweaks (Some adapters) pre = (trace, Inl EOFError, [])"
      and l: "py_int (lower (strip l)) = Some (int i + 1)" and i: "i < length adapters"
      and f: "guids ! i \<notin> set (added_guids trace)"
      and c: "set guids \<subseteq> insert (guids ! i) (set (added_guids trace))"
  proof -
    from named [OF i] obtain name where ni: "(adapters ! i) ''Name'' = Some name" ..
    note k = last_selection_ends_call [OF g d p l i ni f c]
    from k(1) have "\<exists>name. select_guids_for_tweaks (Some adapters) (pre @ l # later) =
               (trace @ [Print (Added name (guids ! i)), Print AllSelected],
                Inr (added_guids trace @ [guids ! i]), later)"
      by (rule exI)
    with k(2,3) show ?thesis
      by (intro conjI)
  qed
  have three: "(map (\<lambda>l. py_int (lower (strip l))) ls = map (\<lambda>i. Some (int i + 1)) js \<longrightarrow>
               (\<exists>out. select_guids_for_tweaks (Some adapters) (ls @ later) =
                  (out @ [Print AllSelected], Inr (map ((!) guids) js), later)))
            \<and> (\<exists>out. select_guids_for_tweaks (Some adapters) (map (\<lambda>i. decimal (i + 1)) js @ later) =
                  (out @ [Print AllSelected], Inr (map ((!) guids) js), later))
            \<and> set (map ((!) guids) js) = set guids"
    if ne: "adapters \<noteq> []" and dj: "distinct js" and sj: "set js = {..<length adapters}"
  proof -
    from ne obtain a rest where c: "adapters = a # rest"
      by (cases adapters) auto
    have "0 \<in> set js"
      using sj c by simp
    then have nj: "js \<noteq> []"
      by (cases js) simp_all
    have general: "\<exists>out. select_guids_for_tweaks (Some adapters) (ls @ later) =
               (out @ [Print AllSelected], Inr (map ((!) guids) js), later)"
      if l: "map (\<lambda>l. py_int (lower (strip l))) ls = map (\<lambda>i. Some (int i + 1)) js" for ls
    proof -
      from select_every_adapter_loop [OF g d nm nj, of "[]" ls later] dj sj l
      obtain out where "select_loop adapters [] (ls @ later) =
          (out @ [Print AllSelected], Inr (map ((!) guids) js), later)"
        by auto
      then have "select_guids_for_tweaks (Some adapters) (ls @ later) =
          ((Print AvailableAdapters # listing adapters @ guidance @ out) @ [Print AllSelected],
           Inr (map ((!) guids) js), later)"
        using c by (simp add: select_guids_for_tweaks_def prepend_def)
      then show ?thesis by (rule exI)
    qed
    have typed: "map (\<lambda>l. py_int (lower (strip l))) (map (\<lambda>i. decimal (i + 1)) js) =
        map (\<lambda>i. Some (int i + 1)) js"
      by (simp add: py_int_decimal)
    from g have len: "length guids = length adapters"
      using length_map by metis
    have "set (map ((!) guids) js) = (!) guids ` {0..<length guids}"
      using sj len by (simp add: lessThan_atLeast0)
    also have "\<dots> = set guids"
      using nth_image [of "length guids" guids] by simp
    finally have all: "set (map ((!) guids) js) = set guids" .
    show ?thesis
    proof (intro conjI impI)
      assume "map (\<lambda>l. py_int (lower (strip l))) ls = map (\<lambda>i. Some (int i + 1)) js"
      then show "\<exists>out. select_guids_for_tweaks (Some adapters) (ls @ later) =
                  (out @ [Print AllSelected], Inr (map ((!) guids) js), later)"
        by (rule general)
    next
      show "\<exists>out. select_guids_for_tweaks (Some adapters) (map (\<lambda>i. decimal (i + 1)) js @ later) =
                  (out @ [Print AllSelected], Inr (map ((!) guids) js), later)"
        by (rule general [OF typed])
    next
      show "set (map ((!) guids) js) = set guids"
        by (rule all)
    qed
  qed
  show ?thesis
  proof (intro conjI impI)
    assume a: "at_loop_head adapters out sel
          \<and> py_int (lower (strip l)) = Some (int i + 1) \<and> i < length adapters
          \<and> guids ! i \<notin> set sel \<and> set guids \<subseteq> insert (guids ! i) (set sel)"
    note r = one [OF a [THEN conjunct1] a [THEN conjunct2, THEN conjunct1]
        a [THEN conjunct2, THEN conjunct2, THEN conjunct1]
        a [THEN conjunct2, THEN conjunct2, THEN conjunct2, THEN conjunct1]
        a [THEN conjunct2, THEN conjunct2, THEN conjunct2, THEN conjunct2]]
    show "\<exists>name. select_loop adapters sel (l # later) =
               ([Input (prompt_message sel), Print (Added name (guids ! i)), Print AllSelected],
                Inr (sel @ [guids ! i]), later)"
      by (rule r [THEN conjunct1])
    show "distinct (sel @ [guids ! i])"
      by (rule r [THEN conjunct2, THEN conjunct1])
    show "set (sel @ [guids ! i]) = set guids"
      by (rule r [THEN conjunct2, THEN conjunct2])
  next
    assume a: "select_guids_for_tweaks (Some adapters) pre = (trace, Inl EOFError, [])
          \<and> py_int (lower (strip l)) = Some (int i + 1) \<and> i < length adapters
          \<and> guids ! i \<notin> set (added_guids trace)
          \<and> set guids \<subseteq> insert (guids ! i) (set (added_guids trace))"
    note r = two [OF a [THEN conjunct1] a [THEN conjunct2, THEN conjunct1]
        a [THEN conjunct2, THEN conjunct2, THEN conjunct1]
        a [THEN conjunct2, THEN conjunct2, THEN conjunct2, THEN conjunct1]
        a [THEN conjunct2, THEN conjunct2, THEN conjunct2, THEN conjunct2]]
    show "\<exists>name. select_guids_for_tweaks (Some adapters) (pre @ l # later) =
               (trace @ [Print (Added name (guids ! i)), Print AllSelected],
                Inr (added_guids trace @ [guids ! i]), later)"
      by (rule r [THEN conjunct1])
    show "distinct (added_guids trace @ [guids ! i])"
      by (rule r [THEN conjunct2, THEN conjunct1])
    show "set (added_guids trace @ [guids ! i]) = set guids"
      by (rule r [THEN conjunct2, THEN conjunct2])
  next
    assume a: "adapters \<noteq> [] \<and> distinct js \<and> set js = {..<length adapters}"
    note r = three [OF a [THEN conjunct1] a [THEN conjunct2, THEN conjunct1]
        a [THEN conjunct2, THEN conjunct2]]
    assume "map (\<lambda>l. py_int (lower (strip l))) ls = map (\<lambda>i. Some (int i + 1)) js"
    then show "\<exists>out. select_guids_for_tweaks (Some adapters) (ls @ later) =
                  (out @ [Print AllSelected], Inr (map ((!) guids) js), later)"
      by (rule r [THEN conjunct1, rule_format])
  next
    assume a: "adapters \<noteq> [] \<and> distinct js \<and> set js = {..<length adapters}"
    note r = three [OF a [THEN conjunct1] a [THEN conjunct2, THEN conjunct1]
        a [THEN conjunct2, THEN conjunct2]]
    show "\<exists>out. select_guids_for_tweaks (Some adapters) (map (\<lambda>i. decimal (i + 1)) js @ later) =
                  (out @ [Print AllSelected], Inr (map ((!) guids) js), later)"
      by (rule r [THEN conjunct2, THEN conjunct1])
    show "set (map ((!) guids) js) = set guids"
      by (rule r [THEN conjunct2, THEN conjunct2])
  qed
qed

theorem selecting_every_adapter_ends_the_loop_witness:
  "at_loop_head [adapter_of ''Ethernet'' ''Intel'' ''G1'', adapter_of ''Wi-Fi'' ''Realtek'' ''G2'']
     [Input PromptFirst, Print (Added ''Ethernet'' ''G1'')] [''G1'']
   \<and> select_loop [adapter_of ''Ethernet'' ''Intel'' ''G1'', adapter_of ''Wi-Fi'' ''Realtek'' ''G2'']
       [''G1''] [''2'', ''done''] =
     ([Input (PromptAnother ''G1''), Print (Added ''Wi-Fi'' ''G2''), Print AllSelected],
      Inr [''G1'', ''G2''], [''done''])
   \<and> select_guids_for_tweaks
       (Some [adapter_of ''Ethernet'' ''Intel'' ''G1'', adapter_of ''Wi-Fi'' ''Realtek'' ''G2''])
       [''2'', ''7'', ''x'', ''2''] =
     ([Print AvailableAdapters, Print (AdapterLine 1 ''Ethernet'' ''Intel'' ''G1''),
       Print (AdapterLine 2 ''Wi-Fi'' ''Realtek'' ''G2''), Print AdapterSelection,
       Print GuidanceCanApply, Print GuidanceRecommended, Print GuidanceNotRecommended,
       Input PromptFirst, Print (Added ''Wi-Fi'' ''G2''), Input (PromptAnother ''G2''),
       Print (InvalidSelection 2), Input (PromptAnother ''G2''), Print InvalidInput,
       Input (PromptAnother ''G2''), Print (AlreadySelected ''Wi-Fi''),
       Input (PromptAnother ''G2'')],
      Inl EOFError, [])
   \<and> select_guids_for_tweaks
       (Some [adapter_of ''Ethernet'' ''Intel'' ''G1'', adapter_of ''Wi-Fi'' ''Realtek'' ''G2''])
       [''2'', ''7'', ''x'', ''2'', '' 1 '', ''done''] =
     ([Print AvailableAdapters, Print (AdapterLine 1 ''Ethernet'' ''Intel'' ''G1''),
       Print (AdapterLine 2 ''Wi-Fi'' ''Realtek'' ''G2''), Print AdapterSelection,
       Print GuidanceCanApply, Print GuidanceRecommended, Print GuidanceNotRecommended,
       Input PromptFirst, Print (Added ''Wi-Fi'' ''G2''), Input (PromptAnother ''G2''),
       Print (InvalidSelection 2), Input (PromptAnother ''G2''), Print InvalidInput,
       Input (PromptAnother ''G2''), Print (AlreadySelected ''Wi-Fi''),
       Input (PromptAnother ''G2''), Print (Added ''Ethernet'' ''G1''), Print AllSelected],
      Inr [''G2'', ''G1''], [''done''])
   \<and> (\<exists>out. select_guids_for_tweaks
         (Some [adapter_of ''Ethernet'' ''Intel'' ''G1'', adapter_of ''Wi-Fi'' ''Realtek'' ''G2''])
         (map (\<lambda>i. decimal (i + 1)) [1, 0] @ [''done'']) =
         (out @ [Print AllSelected], Inr (map ((!) [''G1'', ''G2'']) [1, 0]), [''done'']))
   \<and> set (map ((!) [''G1'', ''G2'']) [1, 0]) = set [''G1'', ''G2'']"
proof -
  let ?ads = "[adapter_of ''Ethernet'' ''Intel'' ''G1'', adapter_of ''Wi-Fi'' ''Realtek'' ''G2'']"
  let ?guids = "[''G1'', ''G2'']"
  have g: "map (\<lambda>a. a ''InterfaceGuid'') ?ads = map Some ?guids"
    by (simp add: adapter_of_def)
  have d: "distinct ?guids"
    by simp
  have nm: "\<forall>a\<in>set ?ads. a ''Name'' \<noteq> None"
    by (simp add: adapter_of_def)
  note t = selecting_every_adapter_ends_the_loop [OF g d nm]
  note h = example_loop_head
  have p2: "py_int (lower (strip ''2'')) = Some (int 1 + 1)"
    by (simp add: sel_eval)
  have a1: "at_loop_head ?ads [Input PromptFirst, Print (Added ''Ethernet'' ''G1'')] [''G1'']
          \<and> py_int (lower (strip ''2'')) = Some (int 1 + 1) \<and> 1 < length ?ads
          \<and> ?guids ! 1 \<notin> set [''G1''] \<and> set ?guids \<subseteq> insert (?guids ! 1) (set [''G1''])"
    using h p2 by simp
  note t1 = t [THEN conjunct1, rule_format, OF a1, of "[''done'']"]
  have w2: "select_loop ?ads [''G1''] [''2'', ''done''] =
     ([Input (PromptAnother ''G1''), Print (Added ''Wi-Fi'' ''G2''), Print AllSelected],
      Inr [''G1'', ''G2''], [''done''])"
    by (simp add: sel_eval)
  have w3: "select_guids_for_tweaks (Some ?ads) [''2'', ''7'', ''x'', ''2''] =
     ([Print AvailableAdapters, Print (AdapterLine 1 ''Ethernet'' ''Intel'' ''G1''),
       Print (AdapterLine 2 ''Wi-Fi'' ''Realtek'' ''G2''), Print AdapterSelection,
       Print GuidanceCanApply, Print GuidanceRecommended, Print GuidanceNotRecommended,
       Input PromptFirst, Print (Added ''Wi-Fi'' ''G2''), Input (PromptAnother ''G2''),
       Print (InvalidSelection 2), Input (PromptAnother ''G2''), Print InvalidInput,
       Input (PromptAnother ''G2''), Print (AlreadySelected ''Wi-Fi''),
       Input (PromptAnother ''G2'')],
      Inl EOFError, [])"
    by (simp add: sel_eval)
  have p1: "py_int (lower (strip '' 1 '')) = Some (int 0 + 1)"
    by (simp add: sel_eval)
  let ?trace = "[Print AvailableAdapters, Print (AdapterLine 1 ''Ethernet'' ''Intel'' ''G1''),
       Print (AdapterLine 2 ''Wi-Fi'' ''Realtek'' ''G2''), Print AdapterSelection,
       Print GuidanceCanApply, Print GuidanceRecommended, Print GuidanceNotRecommended,
       Input PromptFirst, Print (Added ''Wi-Fi'' ''G2''), Input (PromptAnother ''G2''),
       Print (InvalidSelection 2), Input (PromptAnother ''G2''), Print InvalidInput,
       Input (PromptAnother ''G2''), Print (AlreadySelected ''Wi-Fi''),
       Input (PromptAnother ''G2'')]"
  have ag: "added_guids ?trace = [''G2'']"
    by simp
  have a2: "select_guids_for_tweaks (Some ?ads) [''2'', ''7'', ''x'', ''2''] = (?trace, Inl EOFError, [])
          \<and> py_int (lower (strip '' 1 '')) = Some (int 0 + 1) \<and> 0 < length ?ads
          \<and> ?guids ! 0 \<notin> set (added_guids ?trace)
          \<and> set ?guids \<subseteq> insert (?guids ! 0) (set (added_guids ?trace))"
    using w3 p1 by (simp add: ag)
  note t2 = t [THEN conjunct2, THEN conjunct1, rule_format, OF a2, of "[''done'']"]
  have w4: "select_guids_for_tweaks (Some ?ads) [''2'', ''7'', ''x'', ''2'', '' 1 '', ''done''] =
     ([Print AvailableAdapters, Print (AdapterLine 1 ''Ethernet'' ''Intel'' ''G1''),
       Print (AdapterLine 2 ''Wi-Fi'' ''Realtek'' ''G2''), Print AdapterSelection,
       Print GuidanceCanApply, Print GuidanceRecommended, Print GuidanceNotRecommended,
       Input PromptFirst, Print (Added ''Wi-Fi'' ''G2''), Input (PromptAnother ''G2''),
       Print (InvalidSelection 2), Input (PromptAnother ''G2''), Print InvalidInput,
       Input (PromptAnother ''G2''), Print (AlreadySelected ''Wi-Fi''),
       Input (PromptAnother ''G2''), Print (Added ''Ethernet'' ''G1''), Print AllSelected],
      Inr [''G2'', ''G1''], [''done''])"
    by (simp add: sel_eval)
  have a3: "?ads \<noteq> [] \<and> distinct [1, 0 :: nat] \<and> set [1, 0 :: nat] = {..<length ?ads}"
    by (simp add: lessThan_Suc insert_commute)
  note t3 = t [THEN conjunct2, THEN conjunct2, rule_format, OF a3, of _ "[''done'']"]
  note w5 = t3 [THEN conjunct2, THEN conjunct1]
  note w6 = t3 [THEN conjunct2, THEN conjunct2]
  from t1 t2 show ?thesis
    by - (rule conjI [OF h conjI [OF w2 conjI [OF w3 conjI [OF w4 conjI [OF w5 w6]]]]])
qed

text \<open>
  Claim C6. The loop stands at its head with the list \<open>sel\<close>; the line typed is the number
  of an adapter of the list (with its fields \<^verbatim>\<open>InterfaceGuid\<close> and \<^verbatim>\<open>Name\<close>) whose
  identifier is already in \<open>sel\<close>. Then the pass prints the notice "already selected" and
  nothing else, and goes round again with the same list: the loop continues from \<open>sel\<close> on the
  lines that follow.
\<close>

theorem reselecting_changes_nothing:
  assumes "at_loop_head adapters out sel"
    and "py_int (lower (strip l)) = Some n" and "1 \<le> n" and "n \<le> int (length adapters)"
    and "(adapters ! nat (n - 1)) ''InterfaceGuid'' = Some g"
    and "(adapters ! nat (n - 1)) ''Name'' = Some name"
    and "g \<in> set sel"
  shows "loop_body adapters sel (l # rest) =
           ([Input (PromptAnother (join '', '' sel)), Print (AlreadySelected name)],
            Continue sel, rest)
         \<and> select_loop adapters sel (l # rest) =
           prepend [Input (PromptAnother (join '', '' sel)), Print (AlreadySelected name)]
             (select_loop adapters sel rest)"
proof -
  have ne: "sel \<noteq> []" using assms(7) by auto
  have nf: "length sel \<noteq> length adapters"
    using at_loop_head_not_full [OF assms(1)] .
  have b: "loop_body adapters sel (l # rest) =
           ([Input (PromptAnother (join '', '' sel)), Print (AlreadySelected name)],
            Continue sel, rest)"
    using assms(3-7) ne nf
    by (simp add: number_step [OF assms(2)] handle_number_def dict_item_def prepend_def
        after_selection_def prompt_message_def)
  show ?thesis
    by (rule conjI [OF b]) (subst select_loop.simps, simp add: b)
qed

theorem reselecting_changes_nothing_witness:
  "at_loop_head [adapter_of ''Ethernet'' ''Intel'' ''G1'', adapter_of ''Wi-Fi'' ''Realtek'' ''G2'']
     [Input PromptFirst, Print (Added ''Ethernet'' ''G1'')] [''G1'']
   \<and> py_int (lower (strip ''1'')) = Some 1
   \<and> loop_body [adapter_of ''Ethernet'' ''Intel'' ''G1'', adapter_of ''Wi-Fi'' ''Realtek'' ''G2'']
       [''G1''] [''1'', ''done''] =
     ([Input (PromptAnother ''G1''), Print (AlreadySelected ''Ethernet'')], Continue [''G1''], [''done''])
   \<and> select_loop [adapter_of ''Ethernet'' ''Intel'' ''G1'', adapter_of ''Wi-Fi'' ''Realtek'' ''G2'']
       [''G1''] [''1'', ''done''] =
     ([Input (PromptAnother ''G1''), Print (AlreadySelected ''Ethernet''),
       Input (PromptAnother ''G1'')], Inr [''G1''], [])"
proof -
  let ?ads = "[adapter_of ''Ethernet'' ''Intel'' ''G1'', adapter_of ''Wi-Fi'' ''Realtek'' ''G2'']"
  note h = example_loop_head
  have p: "py_int (lower (strip ''1'')) = Some 1"
    by (simp add: sel_eval)
  have d: "select_loop ?ads [''G1''] [''done''] = ([Input (PromptAnother ''G1'')], Inr [''G1''], [])"
    by (simp add: sel_eval)
  have t: "loop_body ?ads [''G1''] (''1'' # [''done'']) =
           ([Input (PromptAnother (join '', '' [''G1''])), Print (AlreadySelected ''Ethernet'')],
            Continue [''G1''], [''done''])
         \<and> select_loop ?ads [''G1''] (''1'' # [''done'']) =
           prepend [Input (PromptAnother (join '', '' [''G1''])), Print (AlreadySelected ''Ethernet'')]
             (select_loop ?ads [''G1''] [''done''])"
    by (rule reselecting_changes_nothing [OF h p]) (simp_all add: adapter_of_def)
  from t h p show ?thesis
    by (simp add: d prepend_def)
qed

text \<open>
  Claim C9. When the record at position \<open>i\<close> has no key \<^verbatim>\<open>InterfaceGuid\<close> and the first line
  typed is its number, the selector ends in \<^verbatim>\<open>KeyError\<close>, which its handler for
  \<^verbatim>\<open>ValueError\<close> does not catch; the number in decimal digits is such a line. So the
  selector never raises only if every record has the key. The listing printed before
  showed that record with \<^verbatim>\<open>N/A\<close> for the identifier.
\<close>

theorem missing_guid_key_raises:
  assumes "i < length adapters"
    and "(adapters ! i) ''InterfaceGuid'' = None"
  shows "(py_int (lower (strip l)) = Some (int i + 1) \<longrightarrow>
            select_guids_for_tweaks (Some adapters) (l # rest) =
              (Print AvailableAdapters # listing adapters @ guidance @ [Input PromptFirst],
               Inl (KeyError ''InterfaceGuid''), rest))
         \<and> select_guids_for_tweaks (Some adapters) (decimal (i + 1) # rest) =
              (Print AvailableAdapters # listing adapters @ guidance @ [Input PromptFirst],
               Inl (KeyError ''InterfaceGuid''), rest)
         \<and> listing adapters ! i =
            Print (AdapterLine (i + 1) (dict_get (adapters ! i) ''Name'' ''N/A'')
              (dict_get (adapters ! i) ''InterfaceDescription'' ''N/A'') ''N/A'')"
proof -
  from assms(1) obtain a more where c: "adapters = a # more"
    by (cases adapters) auto
  have h: "handle_number adapters [] (int i + 1) rest = ([], Raise (KeyError ''InterfaceGuid''), rest)"
    using assms by (simp add: handle_number_def dict_item_def)
  have general: "select_guids_for_tweaks (Some adapters) (l # rest) =
              (Print AvailableAdapters # listing adapters @ guidance @ [Input PromptFirst],
               Inl (KeyError ''InterfaceGuid''), rest)"
    if p: "py_int (lower (strip l)) = Some (int i + 1)" for l
  proof -
    have "select_loop adapters [] (l # rest) =
        ([Input PromptFirst], Inl (KeyError ''InterfaceGuid''), rest)"
      by (subst select_loop.simps)
        (simp add: number_step [OF p] h prepend_def prompt_message_def)
    then show ?thesis
      using c by (simp add: select_guids_for_tweaks_def prepend_def)
  qed
  have typed: "py_int (lower (strip (decimal (i + 1)))) = Some (int i + 1)"
    by (simp add: py_int_decimal)
  have shown: "listing adapters ! i =
            Print (AdapterLine (i + 1) (dict_get (adapters ! i) ''Name'' ''N/A'')
              (dict_get (adapters ! i) ''InterfaceDescription'' ''N/A'') ''N/A'')"
    using assms by (simp add: listing_def adapter_line_def nth_enumerate_eq dict_get_def)
  from general general [OF typed] shown show ?thesis by blast
qed

theorem missing_guid_key_raises_witness:
  "py_int (lower (strip ''2'')) = Some 2
   \<and> decimal 2 = ''2''
   \<and> select_guids_for_tweaks
       (Some [adapter_of ''Ethernet'' ''Intel'' ''G1'', [''Name'' \<mapsto> ''Tunnel'']]) [''2'', ''done''] =
     ([Print AvailableAdapters, Print (AdapterLine 1 ''Ethernet'' ''Intel'' ''G1''),
       Print (AdapterLine 2 ''Tunnel'' ''N/A'' ''N/A''), Print AdapterSelection,
       Print GuidanceCanApply, Print GuidanceRecommended, Print GuidanceNotRecommended,
       Input PromptFirst], Inl (KeyError ''InterfaceGuid''), [''done''])
   \<and> listing [adapter_of ''Ethernet'' ''Intel'' ''G1'', [''Name'' \<mapsto> ''Tunnel'']] ! 1 =
     Print (AdapterLine 2 ''Tunnel'' ''N/A'' ''N/A'')"
proof -
  let ?ads = "[adapter_of ''Ethernet'' ''Intel'' ''G1'', [''Name'' \<mapsto> ''Tunnel'']]"
  have p: "py_int (lower (strip ''2'')) = Some (int 1 + 1)"
    by (simp add: sel_eval)
  have d: "decimal 2 = ''2''"
    by code_simp
  have a: "1 < length ?ads" "(?ads ! 1) ''InterfaceGuid'' = None"
    by simp_all
  note t = missing_guid_key_raises [OF a, of "''2''" "[''done'']"]
  have p': "py_int (lower (strip ''2'')) = Some 2"
    using p by simp
  have l: "Print AvailableAdapters # listing ?ads @ guidance @ [Input PromptFirst] =
     [Print AvailableAdapters, Print (AdapterLine 1 ''Ethernet'' ''Intel'' ''G1''),
       Print (AdapterLine 2 ''Tunnel'' ''N/A'' ''N/A''), Print AdapterSelection,
       Print GuidanceCanApply, Print GuidanceRecommended, Print GuidanceNotRecommended,
       Input PromptFirst]"
    by (simp add: listing_def adapter_line_def dict_get_def adapter_of_def guidance_def
        eval_nat_numeral)
  have n: "dict_get (?ads ! 1) ''Name'' ''N/A'' = ''Tunnel''"
    "dict_get (?ads ! 1) ''InterfaceDescription'' ''N/A'' = ''N/A''"
    by (simp_all add: dict_get_def)
  have t1: "select_guids_for_tweaks (Some ?ads) [''2'', ''done''] =
     ([Print AvailableAdapters, Print (AdapterLine 1 ''Ethernet'' ''Intel'' ''G1''),
       Print (AdapterLine 2 ''Tunnel'' ''N/A'' ''N/A''), Print AdapterSelection,
       Print GuidanceCanApply, Print GuidanceRecommended, Print GuidanceNotRecommended,
       Input PromptFirst], Inl (KeyError ''InterfaceGuid''), [''done''])"
    using t [THEN conjunct1, rule_format, OF p] by (simp only: l)
  have t3: "listing ?ads ! 1 = Print (AdapterLine 2 ''Tunnel'' ''N/A'' ''N/A'')"
    using t [THEN conjunct2, THEN conjunct2] by (simp only: n) simp
  show ?thesis
    by (rule conjI [OF p' conjI [OF d conjI [OF t1 t3]]])
qed

text \<open>
  Claim C10. At every head of the loop the list has no identifier twice, each of its
  elements is the \<^verbatim>\<open>InterfaceGuid\<close> of an adapter of the input, and the list is the
  identifiers of the \<open>Added\<close> notices printed so far, in the order printed, which is the
  order of first selection. A pass that goes round again leaves the list as it is or appends
  one identifier that was not in it. The value returned has the same three properties (it
  is empty after \<^verbatim>\<open>skip\<close>, or after \<^verbatim>\<open>done\<close> with nothing selected).
\<close>

theorem selection_stays_duplicate_free:
  "(at_loop_head adapters out sel \<longrightarrow>
      distinct sel
      \<and> (\<forall>g\<in>set sel. \<exists>a\<in>set adapters. a ''InterfaceGuid'' = Some g)
      \<and> sel = added_guids out)
   \<and> (at_loop_head adapters out sel \<and> loop_body adapters sel stdin = (out', Continue sel', rest) \<longrightarrow>
      at_loop_head adapters (out @ out') sel'
      \<and> (sel' = sel \<or> (\<exists>g. g \<notin> set sel \<and> sel' = sel @ [g])))
   \<and> (select_guids_for_tweaks (Some adapters) stdin = (trace, Inr r, rest') \<longrightarrow>
      distinct r
      \<and> (\<forall>g\<in>set r. \<exists>a\<in>set adapters. a ''InterfaceGuid'' = Some g)
      \<and> (r = [] \<or> r = added_guids trace))"
proof (intro conjI impI)
  assume "at_loop_head adapters out sel"
  from at_loop_head_ok [OF this]
  show "distinct sel" and "\<forall>g\<in>set sel. \<exists>a\<in>set adapters. a ''InterfaceGuid'' = Some g"
    and "sel = added_guids out"
    unfolding selection_ok_def by blast+
next
  assume h: "at_loop_head adapters out sel \<and> loop_body adapters sel stdin = (out', Continue sel', rest)"
  then show "at_loop_head adapters (out @ out') sel'"
    by (auto intro: at_loop_head.round)
  from h loop_body_grows [of adapters sel stdin out' "Continue sel'" rest sel']
  show "sel' = sel \<or> (\<exists>g. g \<notin> set sel \<and> sel' = sel @ [g])"
    by (auto simp: grows_def)
next
  assume "select_guids_for_tweaks (Some adapters) stdin = (trace, Inr r, rest')"
  from selector_ok [OF this]
  show "distinct r" and "\<forall>g\<in>set r. \<exists>a\<in>set adapters. a ''InterfaceGuid'' = Some g"
    and "r = [] \<or> r = added_guids trace"
    unfolding selection_ok_def by auto
qed

theorem selection_stays_duplicate_free_witness:
  "at_loop_head [adapter_of ''Ethernet'' ''Intel'' ''G1'', adapter_of ''Wi-Fi'' ''Realtek'' ''G2'']
     [Input PromptFirst, Print (Added ''Ethernet'' ''G1'')] [''G1'']
   \<and> distinct [''G1'']
   \<and> [''G1''] = added_guids [Input PromptFirst, Print (Added ''Ethernet'' ''G1'')]
   \<and> loop_body [adapter_of ''Ethernet'' ''Intel'' ''G1'', adapter_of ''Wi-Fi'' ''Realtek'' ''G2'']
       [''G1''] [''7''] =
     ([Input (PromptAnother ''G1''), Print (InvalidSelection 2)], Continue [''G1''], [])
   \<and> at_loop_head [adapter_of ''Ethernet'' ''Intel'' ''G1'', adapter_of ''Wi-Fi'' ''Realtek'' ''G2'']
       [Input PromptFirst, Print (Added ''Ethernet'' ''G1''), Input (PromptAnother ''G1''),
        Print (InvalidSelection 2)] [''G1'']
   \<and> select_guids_for_tweaks
       (Some [adapter_of ''Ethernet'' ''Intel'' ''G1'', adapter_of ''Wi-Fi'' ''Realtek'' ''G2''])
       [''2'', ''2'', ''1''] =
     ([Print AvailableAdapters, Print (AdapterLine 1 ''Ethernet'' ''Intel'' ''G1''),
       Print (AdapterLine 2 ''Wi-Fi'' ''Realtek'' ''G2''), Print AdapterSelection,
       Print GuidanceCanApply, Print GuidanceRecommended, Print GuidanceNotRecommended,
       Input PromptFirst, Print (Added ''Wi-Fi'' ''G2''), Input (PromptAnother ''G2''),
       Print (AlreadySelected ''Wi-Fi''), Input (PromptAnother ''G2''),
       Print (Added ''Ethernet'' ''G1''), Print AllSelected],
      Inr [''G2'', ''G1''], [])
   \<and> distinct [''G2'', ''G1'']"
proof -
  let ?ads = "[adapter_of ''Ethernet'' ''Intel'' ''G1'', adapter_of ''Wi-Fi'' ''Realtek'' ''G2'']"
  note h = example_loop_head
  have b: "loop_body ?ads [''G1''] [''7''] =
     ([Input (PromptAnother ''G1''), Print (InvalidSelection 2)], Continue [''G1''], [])"
    by (simp add: sel_eval)
  have s: "select_guids_for_tweaks (Some ?ads) [''2'', ''2'', ''1''] =
     ([Print AvailableAdapters, Print (AdapterLine 1 ''Ethernet'' ''Intel'' ''G1''),
       Print (AdapterLine 2 ''Wi-Fi'' ''Realtek'' ''G2''), Print AdapterSelection,
       Print GuidanceCanApply, Print GuidanceRecommended, Print GuidanceNotRecommended,
       Input PromptFirst, Print (Added ''Wi-Fi'' ''G2''), Input (PromptAnother ''G2''),
       Print (AlreadySelected ''Wi-Fi''), Input (PromptAnother ''G2''),
       Print (Added ''Ethernet'' ''G1''), Print AllSelected],
      Inr [''G2'', ''G1''], [])"
    by (simp add: sel_eval)
  note t = selection_stays_duplicate_free
  from t [THEN conjunct1, rule_format, OF h]
    t [THEN conjunct2, THEN conjunct1, rule_format, OF conjI [OF h b], THEN conjunct1]
    t [THEN conjunct2, THEN conjunct2, rule_format, OF s, THEN conjunct1]
    h b s
  show ?thesis by simp
qed

section \<open>The run as a whole\<close>

text \<open>
  Claim C3, as stated, fails. The claim says that an empty result of the enumeration aborts
  the run like a null one. With the companion script present and a query whose output
  parses to the empty list, the enumerator returns the empty list, the selector returns at
  once, and \<^verbatim>\<open>run_script\<close> goes on to call \<^verbatim>\<open>ShellExecuteW\<close>: the guard at line 136 is
  \<^verbatim>\<open>adapters is None\<close>.
\<close>

theorem empty_adapter_list_still_launches:
  \<open>get_network_adapters_from_powershell (query (installed (Loaded (JArray [])) [] (Returned 42))) =
     ([Print FetchingAdapters, RunPowerShell], Some [])
   \<and> list_ex is_elevation (fst (run_script (installed (Loaded (JArray [])) [] (Returned 42))))
   \<and> run_script (installed (Loaded (JArray [])) [] (Returned 42)) =
     ([Print FetchingAdapters, RunPowerShell, Print NoAdaptersFound,
       Print (AttemptingToRun ''C:/Tools/GamingNetworkOptimization.ps1''),
       Print NoGuidsSelected,
       ShellExecuteW ''runas'' ''powershell.exe''
         ''-NoProfile -ExecutionPolicy Bypass -File "C:/Tools/GamingNetworkOptimization.ps1" -TargetGuidsCsv ""''
         1,
       Print LaunchRequested], None)\<close>
  by (simp add: installed_def run_script_def select_guids_for_tweaks_def launch_def
      report_launch_def script_parameters_def)

text \<open>
  Claim C3, amended. With the companion script present: when the enumerator returns
  \<^verbatim>\<open>None\<close>, the run ends after the notice of line 137, with no prompt and no call of
  \<^verbatim>\<open>ShellExecuteW\<close>; when it returns the empty list, there is no prompt either, but the
  run goes on and makes the one call of \<^verbatim>\<open>ShellExecuteW\<close>, with no identifier in its
  parameters.
\<close>

theorem none_aborts_empty_list_launches:
  "(script_exists env \<and> get_network_adapters_from_powershell (query env) = (out1, None) \<longrightarrow>
      run_script env = (out1 @ [Print CouldNotRetrieve], None)
      \<and> \<not> list_ex is_prompt (fst (run_script env))
      \<and> \<not> list_ex is_elevation (fst (run_script env)))
   \<and> (script_exists env \<and> get_network_adapters_from_powershell (query env) = (out1, Some []) \<longrightarrow>
      run_script env =
        (out1 @ [Print NoAdaptersFound] @ launch (target_ps_script_path env) [] (elevation env), None)
      \<and> \<not> list_ex is_prompt (fst (run_script env))
      \<and> filter is_elevation (fst (run_script env)) =
          [ShellExecuteW ''runas'' ''powershell.exe''
             (script_parameters (target_ps_script_path env) []) 1])"
proof (intro conjI impI)
  assume h: "script_exists env \<and> get_network_adapters_from_powershell (query env) = (out1, None)"
  then show r: "run_script env = (out1 @ [Print CouldNotRetrieve], None)"
    by (simp add: run_script_def)
  from h enumerator_quiet [of "query env" out1 None]
  show "\<not> list_ex is_prompt (fst (run_script env))"
    and "\<not> list_ex is_elevation (fst (run_script env))"
    by (simp_all add: r)
next
  assume h: "script_exists env \<and> get_network_adapters_from_powershell (query env) = (out1, Some [])"
  then show r: "run_script env =
        (out1 @ [Print NoAdaptersFound] @ launch (target_ps_script_path env) [] (elevation env), None)"
    by (simp add: run_script_def select_guids_for_tweaks_def)
  from h enumerator_quiet [of "query env" out1 "Some []"]
  have q: "\<not> list_ex is_prompt out1" "\<not> list_ex is_elevation out1"
    by simp_all
  show "\<not> list_ex is_prompt (fst (run_script env))"
    using q(1) by (simp add: r launch_def report_launch_def split: shell_outcome.splits)
  show "filter is_elevation (fst (run_script env)) =
          [ShellExecuteW ''runas'' ''powershell.exe''
             (script_parameters (target_ps_script_path env) []) 1]"
    using launch_elevation [of "target_ps_script_path env" "[]" "elevation env"]
    by (simp add: r filter_none [OF q(2)])
qed

theorem none_aborts_empty_list_launches_witness:
  \<open>run_script (installed (JSONDecodeError ''Expecting value'') [''1''] (Returned 42)) =
     ([Print FetchingAdapters, RunPowerShell,
       Print (EnumerationJSONDecodeError ''Expecting value''),
       MessageBoxW (EnumerationJSONDecodeError ''Expecting value'') ''Adapter Enumeration Error'' 16,
       Print CouldNotRetrieve], None)
   \<and> \<not> list_ex is_prompt
         (fst (run_script (installed (JSONDecodeError ''Expecting value'') [''1''] (Returned 42))))
   \<and> \<not> list_ex is_elevation
         (fst (run_script (installed (JSONDecodeError ''Expecting value'') [''1''] (Returned 42))))
   \<and> \<not> list_ex is_prompt (fst (run_script (installed (Loaded (JArray [])) [''1''] (Returned 42))))
   \<and> filter is_elevation (fst (run_script (installed (Loaded (JArray [])) [''1''] (Returned 42)))) =
       [ShellExecuteW ''runas'' ''powershell.exe''
          ''-NoProfile -ExecutionPolicy Bypass -File "C:/Tools/GamingNetworkOptimization.ps1" -TargetGuidsCsv ""''
          1]\<close>
proof -
  have a: "script_exists (installed (JSONDecodeError ''Expecting value'') [''1''] (Returned 42))
    \<and> get_network_adapters_from_powershell
        (query (installed (JSONDecodeError ''Expecting value'') [''1''] (Returned 42))) =
      ([Print FetchingAdapters, RunPowerShell,
        Print (EnumerationJSONDecodeError ''Expecting value''),
        MessageBoxW (EnumerationJSONDecodeError ''Expecting value'') ''Adapter Enumeration Error'' 16],
       None)"
    by (simp add: installed_def enumeration_error_def)
  have b: "script_exists (installed (Loaded (JArray [])) [''1''] (Returned 42))
    \<and> get_network_adapters_from_powershell
        (query (installed (Loaded (JArray [])) [''1''] (Returned 42))) =
      ([Print FetchingAdapters, RunPowerShell], Some [])"
    by (simp add: installed_def)
  have c: "target_ps_script_path (installed (Loaded (JArray [])) [''1''] (Returned 42)) =
      ''C:/Tools/GamingNetworkOptimization.ps1''"
    by (simp add: installed_def)
  from none_aborts_empty_list_launches [THEN conjunct1, rule_format, OF a]
    none_aborts_empty_list_launches [THEN conjunct2, rule_format, OF b, THEN conjunct2]
  show ?thesis
    by (simp add: c script_parameters_def)
qed

text \<open>
  Claim C4. In a run that reaches the selector and gets the list \<open>sel\<close> from it, the one call
  of \<^verbatim>\<open>ShellExecuteW\<close> has the parameter string of line 151, in which the value of
  \<^verbatim>\<open>-TargetGuidsCsv\<close> is \<open>join '','' sel\<close> between double quotes. That value is empty
  for the empty list, is \<^verbatim>\<open>GUID-A,GUID-B\<close> for the two identifiers of the claim, and for a
  list that is not empty, of identifiers without a comma, splitting it at its commas gives
  back the list: the identifiers in their order, one comma between neighbours, none at the
  end.
\<close>

theorem elevation_parameter_is_the_joined_selection:
  assumes "script_exists env"
    and "get_network_adapters_from_powershell (query env) = (out1, Some adapters)"
    and "select_guids_for_tweaks (Some adapters) (typed_lines env) = (out2, Inr sel, rest)"
  shows \<open>filter is_elevation (fst (run_script env)) =
           [ShellExecuteW ''runas'' ''powershell.exe''
              (''-NoProfile -ExecutionPolicy Bypass -File "'' @ target_ps_script_path env @
               ''" -TargetGuidsCsv "'' @ join '','' sel @ ''"'') 1]
         \<and> (sel = [] \<longrightarrow> join '','' sel = [])
         \<and> (sel = [''GUID-A'', ''GUID-B''] \<longrightarrow> join '','' sel = ''GUID-A,GUID-B'')
         \<and> (sel \<noteq> [] \<and> (\<forall>g\<in>set sel. CHR '','' \<notin> set g) \<longrightarrow>
              split_commas (join '','' sel) = sel)\<close>
proof (intro conjI impI)
  have r: "run_script env =
      (out1 @ out2 @ launch (target_ps_script_path env) sel (elevation env), None)"
    using assms by (simp add: run_script_def)
  have q: "filter is_elevation out1 = []" "filter is_elevation out2 = []"
    using enumerator_quiet [OF assms(2)] selector_no_elevation [OF assms(3)]
    by (simp_all add: filter_none)
  show \<open>filter is_elevation (fst (run_script env)) =
           [ShellExecuteW ''runas'' ''powershell.exe''
              (''-NoProfile -ExecutionPolicy Bypass -File "'' @ target_ps_script_path env @
               ''" -TargetGuidsCsv "'' @ join '','' sel @ ''"'') 1]\<close>
    by (simp add: r q launch_elevation script_parameters_def)
next
  assume "sel = []"
  then show "join '','' sel = []" by simp
next
  assume "sel = [''GUID-A'', ''GUID-B'']"
  then show "join '','' sel = ''GUID-A,GUID-B''" by simp
next
  assume "sel \<noteq> [] \<and> (\<forall>g\<in>set sel. CHR '','' \<notin> set g)"
  then show "split_commas (join '','' sel) = sel"
    by (simp add: split_commas_join)
qed

theorem elevation_parameter_is_the_joined_selection_witness:
  \<open>select_guids_for_tweaks
     (Some [adapter_of ''Ethernet'' ''Intel'' ''GUID-A'', adapter_of ''Wi-Fi'' ''Realtek'' ''GUID-B''])
     [''1'', ''2''] =
     ([Print AvailableAdapters, Print (AdapterLine 1 ''Ethernet'' ''Intel'' ''GUID-A''),
       Print (AdapterLine 2 ''Wi-Fi'' ''Realtek'' ''GUID-B''), Print AdapterSelection,
       Print GuidanceCanApply, Print GuidanceRecommended, Print GuidanceNotRecommended,
       Input PromptFirst, Print (Added ''Ethernet'' ''GUID-A''), Input (PromptAnother ''GUID-A''),
       Print (Added ''Wi-Fi'' ''GUID-B''), Print AllSelected],
      Inr [''GUID-A'', ''GUID-B''], [])
   \<and> filter is_elevation
       (fst (run_script
         (installed
           (Loaded (JArray [adapter_of ''Ethernet'' ''Intel'' ''GUID-A'',
                            adapter_of ''Wi-Fi'' ''Realtek'' ''GUID-B'']))
           [''1'', ''2''] (Returned 42)))) =
     [ShellExecuteW ''runas'' ''powershell.exe''
        ''-NoProfile -ExecutionPolicy Bypass -File "C:/Tools/GamingNetworkOptimization.ps1" -TargetGuidsCsv "GUID-A,GUID-B"''
        1]
   \<and> split_commas ''GUID-A,GUID-B'' = [''GUID-A'', ''GUID-B'']\<close>
proof -
  let ?ads = "[adapter_of ''Ethernet'' ''Intel'' ''GUID-A'', adapter_of ''Wi-Fi'' ''Realtek'' ''GUID-B'']"
  let ?env = "installed (Loaded (JArray ?ads)) [''1'', ''2''] (Returned 42)"
  have s: "select_guids_for_tweaks (Some ?ads) [''1'', ''2''] =
     ([Print AvailableAdapters, Print (AdapterLine 1 ''Ethernet'' ''Intel'' ''GUID-A''),
       Print (AdapterLine 2 ''Wi-Fi'' ''Realtek'' ''GUID-B''), Print AdapterSelection,
       Print GuidanceCanApply, Print GuidanceRecommended, Print GuidanceNotRecommended,
       Input PromptFirst, Print (Added ''Ethernet'' ''GUID-A''), Input (PromptAnother ''GUID-A''),
       Print (Added ''Wi-Fi'' ''GUID-B''), Print AllSelected],
      Inr [''GUID-A'', ''GUID-B''], [])"
    by (simp add: sel_eval)
  have a: "script_exists ?env" by (simp add: installed_def)
  have b: "get_network_adapters_from_powershell (query ?env) =
      ([Print FetchingAdapters, RunPowerShell], Some ?ads)"
    by (simp add: installed_def)
  have c: "select_guids_for_tweaks (Some ?ads) (typed_lines ?env) =
     ([Print AvailableAdapters, Print (AdapterLine 1 ''Ethernet'' ''Intel'' ''GUID-A''),
       Print (AdapterLine 2 ''Wi-Fi'' ''Realtek'' ''GUID-B''), Print AdapterSelection,
       Print GuidanceCanApply, Print GuidanceRecommended, Print GuidanceNotRecommended,
       Input PromptFirst, Print (Added ''Ethernet'' ''GUID-A''), Input (PromptAnother ''GUID-A''),
       Print (Added ''Wi-Fi'' ''GUID-B''), Print AllSelected],
      Inr [''GUID-A'', ''GUID-B''], [])"
    using s by (simp add: installed_def)
  have d: "target_ps_script_path ?env = ''C:/Tools/GamingNetworkOptimization.ps1''"
    by (simp add: installed_def)
  note t = elevation_parameter_is_the_joined_selection [OF a b c]
  have e: "split_commas (join '','' [''GUID-A'', ''GUID-B'']) = [''GUID-A'', ''GUID-B'']"
    by (rule t [THEN conjunct2, THEN conjunct2, THEN conjunct2, rule_format]) simp
  from t [THEN conjunct1] e s show ?thesis
    by (simp add: d)
qed

end
